theory Spec2Isabelle
  imports Complex_Main
begin

section \<open>Arrays\<close>

text \<open>
  The program works on numpy arrays of floating-point numbers.  The embedding takes the
  entries to be real numbers with exact arithmetic: a one-dimensional array is a list, a
  two-dimensional array is the list of its rows, and the three-dimensional buffer \<open>H\<close>
  of the recursions is the list of its matrices.  Rounding, overflow and the values
  \<open>inf\<close> and \<open>nan\<close> are outside this model; \<open>np.isinf\<close> is therefore false on every
  entry.

  The exceptions the program can run into are values of the type \<open>error\<close>:
  \<open>ValueError\<close> is what numpy raises for a \<open>reshape\<close> or an indexed assignment whose
  sizes do not fit (and what \<open>simulate_bekk\<close> raises itself), \<open>LinAlgError\<close> is what
  \<open>np.linalg.inv\<close> and \<open>scipy.linalg.cholesky\<close> raise, \<open>IndexError\<close> is what writing
  slot \<open>0\<close> of a buffer without slots raises.
\<close>

type_synonym vec = "real list"
type_synonym mat = "real list list"

datatype error = ValueError | LinAlgError | IndexError

definition nrows :: "mat \<Rightarrow> nat" where
  "nrows X = length X"

definition ncols :: "mat \<Rightarrow> nat" where
  "ncols X = (case X of [] \<Rightarrow> 0 | r # _ \<Rightarrow> length r)"

text \<open>The array with \<open>r\<close> rows and \<open>c\<close> columns whose entry \<open>(i, j)\<close> is \<open>f i j\<close>.\<close>

definition mat :: "nat \<Rightarrow> nat \<Rightarrow> (nat \<Rightarrow> nat \<Rightarrow> real) \<Rightarrow> mat" where
  "mat r c f = map (\<lambda>i. map (f i) [0..<c]) [0..<r]"

text \<open>\<open>is_mat r c X\<close>: the array \<open>X\<close> has shape \<open>(r, c)\<close>.\<close>

definition is_mat :: "nat \<Rightarrow> nat \<Rightarrow> mat \<Rightarrow> bool" where
  "is_mat r c X = (length X = r \<and> list_all (\<lambda>row. length row = c) X)"

definition zeros :: "nat \<Rightarrow> nat \<Rightarrow> mat" where
  "zeros r c = mat r c (\<lambda>i j. 0)"

definition eye :: "nat \<Rightarrow> mat" where
  "eye n = mat n n (\<lambda>i j. if i = j then 1 else 0)"

text \<open>\<open>X.T\<close>\<close>

definition transpose_m :: "mat \<Rightarrow> mat" where
  "transpose_m X = mat (ncols X) (nrows X) (\<lambda>i j. X ! j ! i)"

text \<open>\<open>X.dot(Y)\<close> for two-dimensional \<open>X\<close> and \<open>Y\<close> whose shapes fit.\<close>

definition dot :: "mat \<Rightarrow> mat \<Rightarrow> mat" where
  "dot X Y = mat (nrows X) (ncols Y) (\<lambda>i j. \<Sum>k\<leftarrow>[0..<ncols X]. X ! i ! k * Y ! k ! j)"

text \<open>\<open>x.dot(Y)\<close> for a one-dimensional \<open>x\<close>, and \<open>Y.dot(x)\<close>.\<close>

definition vec_dot_mat :: "vec \<Rightarrow> mat \<Rightarrow> vec" where
  "vec_dot_mat x Y = map (\<lambda>j. \<Sum>k\<leftarrow>[0..<length x]. x ! k * Y ! k ! j) [0..<ncols Y]"

definition mat_dot_vec :: "mat \<Rightarrow> vec \<Rightarrow> vec" where
  "mat_dot_vec X y = map (\<lambda>i. \<Sum>k\<leftarrow>[0..<length y]. X ! i ! k * y ! k) [0..<nrows X]"

definition vec_dot :: "vec \<Rightarrow> vec \<Rightarrow> real" where
  "vec_dot x y = (\<Sum>k\<leftarrow>[0..<length x]. x ! k * y ! k)"

text \<open>\<open>X + Y\<close>, \<open>X - Y\<close> and \<open>X / d\<close>, entry by entry.\<close>

definition add :: "mat \<Rightarrow> mat \<Rightarrow> mat" where
  "add X Y = mat (nrows X) (ncols X) (\<lambda>i j. X ! i ! j + Y ! i ! j)"

definition sub :: "mat \<Rightarrow> mat \<Rightarrow> mat" where
  "sub X Y = mat (nrows X) (ncols X) (\<lambda>i j. X ! i ! j - Y ! i ! j)"

definition divide_m :: "mat \<Rightarrow> real \<Rightarrow> mat" where
  "divide_m X d = mat (nrows X) (ncols X) (\<lambda>i j. X ! i ! j / d)"

text \<open>\<open>x[np.newaxis].T * x\<close>: the outer product of a one-dimensional array with itself.\<close>

definition outer :: "vec \<Rightarrow> mat" where
  "outer x = mat (length x) (length x) (\<lambda>i j. x ! i * x ! j)"

text \<open>\<open>X == X.T\<close> in every entry.\<close>

definition symmetric :: "mat \<Rightarrow> bool" where
  "symmetric X = (transpose_m X = X)"

section \<open>Parameter codec\<close>

text \<open>
  \<open>xs.reshape([r, c])\<close> of a one-dimensional array: numpy raises \<open>ValueError\<close> unless the
  array has exactly \<open>r * c\<close> entries; the rows are consecutive runs of \<open>c\<close> entries.
\<close>

definition reshape :: "real list \<Rightarrow> nat \<Rightarrow> nat \<Rightarrow> error + mat" where
  "reshape xs r c =
     (if length xs = r * c then Inr (mat r c (\<lambda>i j. xs ! (i * c + j))) else Inl ValueError)"

text \<open>\<open>xs[a:b]\<close> for \<open>0 \<le> a \<le> b\<close>; a slice never raises, it is cut at the end of \<open>xs\<close>.\<close>

definition slice :: "real list \<Rightarrow> nat \<Rightarrow> nat \<Rightarrow> real list" where
  "slice xs a b = drop a (take b xs)"

text \<open>\<open>np.tril_indices(n)\<close>: the index pairs on and below the diagonal, row by row.\<close>

definition tril_indices :: "nat \<Rightarrow> (nat \<times> nat) list" where
  "tril_indices n = concat (map (\<lambda>i. map (\<lambda>j. (i, j)) [0..<Suc i]) [0..<n])"

text \<open>\<open>X[idx]\<close> for a list of index pairs.\<close>

definition getitem :: "mat \<Rightarrow> (nat \<times> nat) list \<Rightarrow> real list" where
  "getitem X idx = map (\<lambda>(i, j). X ! i ! j) idx"

definition put :: "(nat \<times> nat) \<times> real \<Rightarrow> mat \<Rightarrow> mat" where
  "put p X = (case p of ((i, j), v) \<Rightarrow> X[i := (X ! i)[j := v]])"

text \<open>
  \<open>X[idx] = vals\<close> for a list of index pairs.  numpy broadcasts \<open>vals\<close> to the number of
  index pairs: an array of as many values is stored entry by entry, an array of exactly
  one value is stored at every index pair, and every other length raises \<open>ValueError\<close>.
\<close>

definition setitem :: "mat \<Rightarrow> (nat \<times> nat) list \<Rightarrow> real list \<Rightarrow> error + mat" where
  "setitem X idx vals =
     (if length vals = length idx then Inr (fold put (zip idx vals) X)
      else if length vals = 1 then Inr (fold put (zip idx (replicate (length idx) (hd vals))) X)
      else Inl ValueError)"

definition convert_theta_to_ab :: "real list \<Rightarrow> nat \<Rightarrow> error + (mat \<times> mat)" where
  "convert_theta_to_ab theta n =
     (case reshape (slice theta 0 (n ^ 2)) n n of
        Inl e \<Rightarrow> Inl e
      | Inr A \<Rightarrow>
          (case reshape (slice theta (n ^ 2) (2 * n ^ 2)) n n of
             Inl e \<Rightarrow> Inl e
           | Inr B \<Rightarrow> Inr (A, B)))"

definition convert_theta_to_abc :: "real list \<Rightarrow> nat \<Rightarrow> error + (mat \<times> mat \<times> mat)" where
  "convert_theta_to_abc theta n =
     (case reshape (slice theta 0 (n ^ 2)) n n of
        Inl e \<Rightarrow> Inl e
      | Inr A \<Rightarrow>
          (case reshape (slice theta (n ^ 2) (2 * n ^ 2)) n n of
             Inl e \<Rightarrow> Inl e
           | Inr B \<Rightarrow>
               (case setitem (zeros n n) (tril_indices n) (drop (2 * n ^ 2) theta) of
                  Inl e \<Rightarrow> Inl e
                | Inr C \<Rightarrow> Inr (A, B, C))))"

definition convert_abc_to_theta :: "mat \<Rightarrow> mat \<Rightarrow> mat \<Rightarrow> real list" where
  "convert_abc_to_theta A B C = concat A @ concat B @ getitem C (tril_indices (nrows C))"

text \<open>A matrix is lower triangular when its entries above the diagonal are zero.\<close>

definition lower_triangular :: "nat \<Rightarrow> mat \<Rightarrow> bool" where
  "lower_triangular n C = (\<forall>i<n. \<forall>j<n. i < j \<longrightarrow> C ! i ! j = 0)"

section \<open>Library functions of linear algebra\<close>

text \<open>
  \<open>np.linalg.det\<close>, \<open>np.linalg.inv\<close>, \<open>np.linalg.norm\<close> and \<open>scipy.linalg.cholesky\<close>
  are library calls.  Each is modelled by the mathematical function it computes, on real
  numbers: the determinant by expansion along the first row, the inverse by cofactors, the
  norm of a matrix as the Frobenius norm, the Cholesky factor row by row.
\<close>

definition del_col :: "nat \<Rightarrow> real list \<Rightarrow> real list" where
  "del_col j r = take j r @ drop (Suc j) r"

function det :: "mat \<Rightarrow> real" where
  "det [] = 1"
| "det (r # rs) = (\<Sum>j\<leftarrow>[0..<length r]. (- 1) ^ j * r ! j * det (map (del_col j) rs))"
  by pat_completeness auto
termination
  by (relation "measure length") auto

definition minor_m :: "nat \<Rightarrow> nat \<Rightarrow> mat \<Rightarrow> mat" where
  "minor_m i j X = map (del_col j) (take i X @ drop (Suc i) X)"

text \<open>\<open>np.linalg.inv\<close> raises \<open>LinAlgError\<close> on a singular matrix.\<close>

definition inv :: "mat \<Rightarrow> error + mat" where
  "inv X =
     (let n = nrows X; d = det X
      in if d = 0 then Inl LinAlgError
         else Inr (mat n n (\<lambda>i j. (- 1) ^ (i + j) * det (minor_m j i X) / d)))"

definition norm_fro :: "mat \<Rightarrow> real" where
  "norm_fro X = sqrt (\<Sum>row\<leftarrow>X. \<Sum>x\<leftarrow>row. x ^ 2)"

text \<open>A loop over a list whose body can raise: the first error ends the loop.\<close>

fun foldM :: "('a \<Rightarrow> 's \<Rightarrow> error + 's) \<Rightarrow> 'a list \<Rightarrow> 's \<Rightarrow> error + 's" where
  "foldM f [] s = Inr s"
| "foldM f (x # xs) s = (case f x s of Inl e \<Rightarrow> Inl e | Inr s' \<Rightarrow> foldM f xs s')"

text \<open>
  \<open>scipy.linalg.cholesky(H, lower=True)\<close>: the lower-triangular \<open>L\<close> with positive
  diagonal and \<open>L L\<^sup>T = H\<close>, computed from the lower triangle of \<open>H\<close>; it raises
  \<open>LinAlgError\<close> when a pivot is not positive.
\<close>

definition chol_entry :: "mat \<Rightarrow> nat \<times> nat \<Rightarrow> mat \<Rightarrow> error + mat" where
  "chol_entry H p L =
     (case p of (i, j) \<Rightarrow>
        let s = (\<Sum>k\<leftarrow>[0..<j]. L ! i ! k * L ! j ! k)
        in if i = j
           then (let d = H ! i ! i - s
                 in if d \<le> 0 then Inl LinAlgError else Inr (put ((i, i), sqrt d) L))
           else Inr (put ((i, j), (H ! i ! j - s) / L ! j ! j) L))"

definition cholesky_lower :: "mat \<Rightarrow> error + mat" where
  "cholesky_lower H =
     (let n = nrows H in foldM (chol_entry H) (tril_indices n) (zeros n n))"

section \<open>Likelihood\<close>

definition estimate_H0 :: "mat \<Rightarrow> mat" where
  "estimate_H0 u = (let T = nrows u in divide_m (dot (transpose_m u) u) (real T))"

text \<open>\<open>np.isinf\<close> on an entry: no real number is infinite.\<close>

definition isinf :: "real \<Rightarrow> bool" where
  "isinf x = False"

text \<open>\<open>np.isclose(a, b)\<close> with its default tolerances \<open>rtol = 1e-5\<close>, \<open>atol = 1e-8\<close>.\<close>

definition isclose :: "real \<Rightarrow> real \<Rightarrow> bool" where
  "isclose a b = (\<bar>a - b\<bar> \<le> 1 / 10 ^ 8 + 1 / 10 ^ 5 * \<bar>b\<bar>)"

definition contribution :: "vec \<Rightarrow> mat \<Rightarrow> error + real" where
  "contribution u H =
     (let bad = (list_ex (list_ex isinf) H
                 \<or> isclose (det H) 0
                 \<or> det H > 10 ^ 20
                 \<or> det H < 0)
      in if bad then Inr (10 ^ 10)
         else (case inv H of
                 Inl e \<Rightarrow> Inl e
               | Inr Hinv \<Rightarrow> Inr (ln (det H) + vec_dot (vec_dot_mat u Hinv) u)))"

text \<open>
  \<open>np.empty((T, n, n))\<close>: a buffer of \<open>T\<close> matrices.  Its content is whatever the memory
  held; both recursions write every slot before they read it.
\<close>

definition empty_buffer :: "nat \<Rightarrow> nat \<Rightarrow> mat list" where
  "empty_buffer T n = replicate T (zeros n n)"

text \<open>The body of the loop of \<open>likelihood\<close>, on the state \<open>(H, f)\<close>.\<close>

definition likelihood_step :: "mat \<Rightarrow> mat \<Rightarrow> mat \<Rightarrow> nat \<Rightarrow> mat list \<times> real \<Rightarrow> error + mat list \<times> real" where
  "likelihood_step A B u t s =
     (case s of (H, f) \<Rightarrow>
        let H = H[t := H ! 0];
            H = H[t := add (H ! t) (dot (dot A (sub (outer (u ! (t - 1))) (H ! 0))) (transpose_m A))];
            H = H[t := add (H ! t) (dot (dot B (sub (H ! (t - 1)) (H ! 0))) (transpose_m B))]
        in (case contribution (u ! t) (H ! t) of
              Inl e \<Rightarrow> Inl e
            | Inr c \<Rightarrow> Inr (H, f + c)))"

text \<open>
  \<open>likelihood\<close> up to the end of its loop: the covariance path \<open>H\<close> and the sum \<open>f\<close>.
  For an array \<open>u\<close> without rows, \<open>H[0] = ...\<close> raises \<open>IndexError\<close>.
\<close>

definition likelihood_state :: "real list \<Rightarrow> mat \<Rightarrow> error + mat list \<times> real" where
  "likelihood_state theta u =
     (let T = nrows u; n = ncols u
      in case convert_theta_to_ab theta n of
           Inl e \<Rightarrow> Inl e
         | Inr (A, B) \<Rightarrow>
             if T = 0 then Inl IndexError
             else
               (let H = empty_buffer T n;
                    H = H[0 := estimate_H0 u]
                in case contribution (u ! 0) (H ! 0) of
                     Inl e \<Rightarrow> Inl e
                   | Inr f \<Rightarrow> foldM (likelihood_step A B u) [1..<T] (H, f)))"

definition likelihood :: "real list \<Rightarrow> mat \<Rightarrow> error + real" where
  "likelihood theta u =
     (case likelihood_state theta u of
        Inl e \<Rightarrow> Inl e
      | Inr (H, f) \<Rightarrow> if isinf f then Inr (10 ^ 10) else Inr f)"

text \<open>
  The matrix that the body of the loop of \<open>likelihood\<close> stores in slot \<open>t\<close> of the buffer
  \<open>H\<close>, as an expression in the slots \<open>0\<close> and \<open>t - 1\<close>.
\<close>

definition estimation_next :: "mat \<Rightarrow> mat \<Rightarrow> mat \<Rightarrow> mat list \<Rightarrow> nat \<Rightarrow> mat" where
  "estimation_next A B u H t =
     add (add (H ! 0) (dot (dot A (sub (outer (u ! (t - 1))) (H ! 0))) (transpose_m A)))
         (dot (dot B (sub (H ! (t - 1)) (H ! 0))) (transpose_m B))"

text \<open>What holds of the buffer after the steps \<open>1, \<dots>, k - 1\<close>.\<close>

definition path_upto :: "mat \<Rightarrow> mat \<Rightarrow> mat \<Rightarrow> mat \<Rightarrow> nat \<Rightarrow> nat \<Rightarrow> mat list \<Rightarrow> bool" where
  "path_upto A B u H0 T k H \<longleftrightarrow>
     length H = T \<and> H ! 0 = H0 \<and> (\<forall>t. 0 < t \<and> t < k \<longrightarrow> H ! t = estimation_next A B u H t)"

section \<open>Simulation\<close>

text \<open>
  The loop of \<open>stationary_H\<close>, on the state \<open>(i, norm, Hold)\<close>.  It may run forever, so the
  result is an option and \<open>None\<close> stands for a loop that never ends.  The result carries
  the counter \<open>i\<close> next to the matrix; at the exit \<open>Hnew\<close> and \<open>Hold\<close> are the same array.
\<close>

definition stationary_next :: "mat \<Rightarrow> mat \<Rightarrow> mat \<Rightarrow> mat \<Rightarrow> mat" where
  "stationary_next A B C Hold =
     add (add (dot C (transpose_m C)) (dot (dot A Hold) (transpose_m A)))
         (dot (dot B Hold) (transpose_m B))"

partial_function (option) stationary_loop ::
  "mat \<Rightarrow> mat \<Rightarrow> mat \<Rightarrow> nat \<Rightarrow> real \<Rightarrow> mat \<Rightarrow> (nat \<times> real \<times> mat) option" where
  "stationary_loop A B C i nrm Hold =
     (if nrm > 1 / 10 ^ 3 \<or> i < 1000
      then (let Hnew = stationary_next A B C Hold
            in stationary_loop A B C (i + 1) (norm_fro (sub Hnew Hold)) Hnew)
      else Some (i, nrm, Hold))"

definition stationary_H :: "mat \<Rightarrow> mat \<Rightarrow> mat \<Rightarrow> mat option" where
  "stationary_H A B C =
     map_option (\<lambda>(i, nrm, Hnew). Hnew) (stationary_loop A B C 0 (10 ^ 3) (eye (nrows A)))"

text \<open>
  The body of the loop of \<open>simulate_BEKK\<close>, on the state \<open>(H, u)\<close>; \<open>e\<close> holds the draws of
  \<open>np.random.multivariate_normal\<close>.
\<close>

definition simulate_step :: "mat \<Rightarrow> mat \<Rightarrow> mat \<Rightarrow> mat \<Rightarrow> nat \<Rightarrow> mat list \<times> mat \<Rightarrow> error + mat list \<times> mat" where
  "simulate_step A B C e t s =
     (case s of (H, u) \<Rightarrow>
        let H = H[t := dot C (transpose_m C)];
            H = H[t := add (H ! t) (dot (dot A (outer (u ! (t - 1)))) (transpose_m A))];
            H = H[t := add (H ! t) (dot (dot B (H ! (t - 1))) (transpose_m B))]
        in (case cholesky_lower (H ! t) of
              Inl err \<Rightarrow> Inl err
            | Inr L \<Rightarrow> Inr (H, u[t := mat_dot_vec L (e ! t)])))"

text \<open>
  \<open>simulate_BEKK(theta, n)\<close> with the random draws \<open>e\<close> (an array of shape \<open>(1000, n)\<close>) as
  an argument.  The printed largest eigenvalue has no part in the result, but its
  \<open>max()\<close> over an empty array raises \<open>ValueError\<close> for \<open>n = 0\<close>.  The result is \<open>None\<close>
  when \<open>stationary_H\<close> does not return.
\<close>

definition simulate_BEKK :: "real list \<Rightarrow> nat \<Rightarrow> mat \<Rightarrow> (error + mat \<times> mat list) option" where
  "simulate_BEKK theta n e =
     (case convert_theta_to_abc theta n of
        Inl err \<Rightarrow> Some (Inl err)
      | Inr (A, B, C) \<Rightarrow>
          let T = 1000
          in if n = 0 then Some (Inl ValueError)
             else
               (let H = empty_buffer T n;
                    u = zeros T n
                in case stationary_H A B C of
                     None \<Rightarrow> None
                   | Some H0 \<Rightarrow>
                       (case foldM (simulate_step A B C e) [1..<T] (H[0 := H0], u) of
                          Inl err \<Rightarrow> Some (Inl err)
                        | Inr (H, u) \<Rightarrow> Some (Inr (u, H)))))"

text \<open>
  \<open>simulate_bekk\<close> of \<open>generate_data.py\<close>.  The class of \<open>param\<close> is not part of the
  sources at hand: a parameter object is the record of its three matrices and of the
  matrix its method \<open>unconditional_var()\<close> returns.  The random number generators are
  arguments too: each takes the state \<open>g\<close> of the generator and returns the drawn array
  of shape \<open>(nobs, nstocks)\<close> with the new state.
\<close>

record bekk_params =
  a_mat :: mat
  b_mat :: mat
  c_mat :: mat
  unconditional_var :: mat

record 'g samplers =
  multivariate_normal :: "nat \<Rightarrow> nat \<Rightarrow> 'g \<Rightarrow> mat \<times> 'g"
  standard_t :: "real \<Rightarrow> nat \<Rightarrow> nat \<Rightarrow> 'g \<Rightarrow> mat \<times> 'g"
  skew_student_rvs :: "real \<Rightarrow> real \<Rightarrow> nat \<Rightarrow> nat \<Rightarrow> 'g \<Rightarrow> mat \<times> 'g"

text \<open>\<open>X.mean(0)\<close> and \<open>X.std(0)\<close>: mean and standard deviation of every column.\<close>

definition column :: "mat \<Rightarrow> nat \<Rightarrow> real list" where
  "column X j = map (\<lambda>row. row ! j) X"

definition mean0 :: "mat \<Rightarrow> vec" where
  "mean0 X = map (\<lambda>j. sum_list (column X j) / real (nrows X)) [0..<ncols X]"

definition std0 :: "mat \<Rightarrow> vec" where
  "std0 X =
     map (\<lambda>j. sqrt (sum_list (map (\<lambda>x. \<bar>x - mean0 X ! j\<bar> ^ 2) (column X j)) / real (nrows X)))
       [0..<ncols X]"

text \<open>
  \<open>(error - error.mean(0)) / error.std(0)\<close>.  Where a column has standard deviation
  zero, floating point gives \<open>nan\<close> or \<open>inf\<close>, which the real numbers do not have: that
  case is outside the model (a quotient by zero is zero here).
\<close>

definition standardize :: "mat \<Rightarrow> mat" where
  "standardize X = mat (nrows X) (ncols X) (\<lambda>i j. (X ! i ! j - mean0 X ! j) / std0 X ! j)"

definition draw_errors ::
  "'g samplers \<Rightarrow> string \<Rightarrow> real \<Rightarrow> real \<Rightarrow> nat \<Rightarrow> nat \<Rightarrow> 'g \<Rightarrow> error + mat \<times> 'g" where
  "draw_errors smp distr degf lam nobs nstocks g =
     (if distr = ''normal'' then Inr (multivariate_normal smp nobs nstocks g)
      else if distr = ''student'' then Inr (standard_t smp degf nobs nstocks g)
      else if distr = ''skewt'' then Inr (skew_student_rvs smp degf lam nobs nstocks g)
      else Inl ValueError)"

definition simulate_bekk_step :: "bekk_params \<Rightarrow> mat \<Rightarrow> mat \<Rightarrow> nat \<Rightarrow> mat list \<times> mat \<Rightarrow> error + mat list \<times> mat" where
  "simulate_bekk_step param intercept error i s =
     (case s of (hvar, innov) \<Rightarrow>
        let innov2 = outer (innov ! (i - 1));
            hvar = hvar[i := add (add intercept (dot (dot (a_mat param) innov2) (transpose_m (a_mat param))))
                                 (dot (dot (b_mat param) (hvar ! (i - 1))) (transpose_m (b_mat param)))]
        in (case cholesky_lower (hvar ! i) of
              Inl err \<Rightarrow> Inl err
            | Inr hvar12 \<Rightarrow> Inr (hvar, innov[i := mat_dot_vec hvar12 (error ! i)])))"

text \<open>
  The result is the pair of what the function returns or raises and the state of the
  random number generator it leaves behind.  With \<open>nobs = 0\<close> the assignment to
  \<open>hvar[0]\<close> raises \<open>IndexError\<close>.
\<close>

definition simulate_bekk ::
  "'g samplers \<Rightarrow> bekk_params \<Rightarrow> nat \<Rightarrow> string \<Rightarrow> real \<Rightarrow> real \<Rightarrow> 'g \<Rightarrow> (error + mat \<times> mat list) \<times> 'g" where
  "simulate_bekk smp param nobs distr degf lam g =
     (let nstocks = nrows (a_mat param)
      in case draw_errors smp distr degf lam nobs nstocks g of
           Inl err \<Rightarrow> (Inl err, g)
         | Inr (error, g') \<Rightarrow>
             (let error = standardize error;
                  hvar = empty_buffer nobs nstocks;
                  innov = zeros nobs nstocks
              in if nobs = 0 then (Inl IndexError, g')
                 else
                   (let hvar = hvar[0 := unconditional_var param];
                        intercept = dot (c_mat param) (transpose_m (c_mat param))
                    in case foldM (simulate_bekk_step param intercept error) [1..<nobs] (hvar, innov) of
                         Inl err \<Rightarrow> (Inl err, g')
                       | Inr (hvar, innov) \<Rightarrow> (Inr (innov, hvar), g'))))"

text \<open>The norm that the loop holds after \<open>k\<close> passes from the state \<open>(i, nrm, H)\<close>.\<close>

definition norm_after :: "mat \<Rightarrow> mat \<Rightarrow> mat \<Rightarrow> real \<Rightarrow> mat \<Rightarrow> nat \<Rightarrow> real" where
  "norm_after A B C nrm H k =
     (case k of 0 \<Rightarrow> nrm
      | Suc j \<Rightarrow> norm_fro (sub ((stationary_next A B C ^^ Suc j) H) ((stationary_next A B C ^^ j) H)))"

definition goes_on :: "nat \<Rightarrow> real \<Rightarrow> bool" where
  "goes_on i nrm \<longleftrightarrow> nrm > 1 / 10 ^ 3 \<or> i < 1000"

text \<open>
  The matrix that a step of either simulation stores in slot \<open>t\<close> of the covariance buffer,
  and the step itself in one update.
\<close>

definition simulation_next :: "mat \<Rightarrow> mat \<Rightarrow> mat \<Rightarrow> mat list \<Rightarrow> mat \<Rightarrow> nat \<Rightarrow> mat" where
  "simulation_next A B C H u t =
     add (add (dot C (transpose_m C)) (dot (dot A (outer (u ! (t - 1)))) (transpose_m A)))
         (dot (dot B (H ! (t - 1))) (transpose_m B))"

definition simulation_update ::
  "mat \<Rightarrow> mat \<Rightarrow> mat \<Rightarrow> mat \<Rightarrow> nat \<Rightarrow> mat list \<times> mat \<Rightarrow> error + mat list \<times> mat" where
  "simulation_update A B C e t s =
     (case s of (H, u) \<Rightarrow>
        (case cholesky_lower (simulation_next A B C H u t) of
           Inl err \<Rightarrow> Inl err
         | Inr L \<Rightarrow> Inr (H[t := simulation_next A B C H u t], u[t := mat_dot_vec L (e ! t)])))"

text \<open>What holds of the two buffers after the steps \<open>1, \<dots>, k - 1\<close>.\<close>

definition simulated_upto ::
  "mat \<Rightarrow> mat \<Rightarrow> mat \<Rightarrow> mat \<Rightarrow> mat \<Rightarrow> vec \<Rightarrow> nat \<Rightarrow> nat \<Rightarrow> mat list \<times> mat \<Rightarrow> bool" where
  "simulated_upto A B C e H0 u0 T k s \<longleftrightarrow>
     (case s of (H, u) \<Rightarrow>
        length H = T \<and> length u = T \<and> H ! 0 = H0 \<and> u ! 0 = u0
        \<and> (\<forall>t. 0 < t \<and> t < k \<longrightarrow>
              H ! t = simulation_next A B C H u t
              \<and> (\<exists>L. cholesky_lower (H ! t) = Inr L \<and> u ! t = mat_dot_vec L (e ! t))))"

text \<open>Generators for trying \<open>simulate_bekk\<close> out: the state counts the draws.\<close>

definition counting_samplers :: "nat samplers" where
  "counting_samplers =
     \<lparr>multivariate_normal = (\<lambda>nobs nstocks g. (mat nobs nstocks (\<lambda>i j. real (g + i)), Suc g)),
      standard_t = (\<lambda>degf nobs nstocks g. (mat nobs nstocks (\<lambda>i j. real (g + i)), Suc g)),
      skew_student_rvs = (\<lambda>degf lam nobs nstocks g. (mat nobs nstocks (\<lambda>i j. real (g + i)), Suc g))\<rparr>"

section \<open>Shapes and entries\<close>

lemma length_mat [simp]: "length (mat r c f) = r"
  by (simp add: mat_def)

lemma nth_mat_row [simp]: "i < r \<Longrightarrow> mat r c f ! i = map (f i) [0..<c]"
  by (simp add: mat_def)

lemma nth_mat [simp]: "i < r \<Longrightarrow> j < c \<Longrightarrow> mat r c f ! i ! j = f i j"
  by (simp add: mat_def)

lemma is_mat_mat [simp]: "is_mat r c (mat r c f)"
  by (simp add: is_mat_def mat_def list_all_iff)

lemma is_mat_length: "is_mat r c X \<Longrightarrow> length X = r"
  by (simp add: is_mat_def)

lemma is_mat_row: "is_mat r c X \<Longrightarrow> i < r \<Longrightarrow> length (X ! i) = c"
  by (simp add: is_mat_def list_all_length)

lemma is_mat_nrows: "is_mat r c X \<Longrightarrow> nrows X = r"
  by (simp add: is_mat_def nrows_def)

lemma is_mat_ncols: "is_mat r c X \<Longrightarrow> 0 < r \<Longrightarrow> ncols X = c"
  by (cases X) (simp_all add: is_mat_def ncols_def)

lemma is_mat_ncols_square: "is_mat n n X \<Longrightarrow> ncols X = n"
  by (cases X) (simp_all add: is_mat_def ncols_def)

text \<open>Two arrays of one shape are equal when their entries are.\<close>

lemma mat_eqI:
  assumes "is_mat r c X" and "is_mat r c Y"
    and "\<And>i j. i < r \<Longrightarrow> j < c \<Longrightarrow> X ! i ! j = Y ! i ! j"
  shows "X = Y"
proof (rule nth_equalityI)
  show "length X = length Y"
    using assms(1,2) by (simp add: is_mat_def)
next
  fix i assume "i < length X"
  then have i: "i < r" using assms(1) by (simp add: is_mat_def)
  show "X ! i = Y ! i"
  proof (rule nth_equalityI)
    show "length (X ! i) = length (Y ! i)"
      using i assms(1,2) by (simp add: is_mat_row)
  next
    fix j assume "j < length (X ! i)"
    then have "j < c" using i assms(1) by (simp add: is_mat_row)
    then show "X ! i ! j = Y ! i ! j" using i assms(3) by blast
  qed
qed

lemma mat_of_entries: "is_mat r c X \<Longrightarrow> mat r c (\<lambda>i j. X ! i ! j) = X"
  by (rule mat_eqI [of r c]) simp_all

section \<open>The codec\<close>

lemma length_concat_is_mat: "is_mat r c X \<Longrightarrow> length (concat X) = r * c"
proof (induction X arbitrary: r)
  case Nil
  then show ?case by (simp add: is_mat_def)
next
  case (Cons row X)
  from Cons.prems obtain r' where r: "r = Suc r'" and X: "is_mat r' c X" and row: "length row = c"
    by (cases r) (auto simp: is_mat_def)
  show ?case using Cons.IH [OF X] row r by simp
qed

lemma nth_concat_is_mat:
  "is_mat r c X \<Longrightarrow> i < r \<Longrightarrow> j < c \<Longrightarrow> concat X ! (i * c + j) = X ! i ! j"
proof (induction X arbitrary: r i)
  case Nil
  then show ?case by (simp add: is_mat_def)
next
  case (Cons row X)
  from Cons.prems obtain r' where r: "r = Suc r'" and X: "is_mat r' c X" and row: "length row = c"
    by (cases r) (auto simp: is_mat_def)
  show ?case
  proof (cases i)
    case 0
    then show ?thesis using Cons.prems row by (simp add: nth_append)
  next
    case (Suc i')
    then have "i' < r'" using Cons.prems r by simp
    from Cons.IH [OF X this \<open>j < c\<close>] show ?thesis
      using Suc row by (simp add: nth_append)
  qed
qed

lemma reshape_concat: "is_mat r c X \<Longrightarrow> reshape (concat X) r c = Inr X"
proof -
  assume X: "is_mat r c X"
  have "mat r c (\<lambda>i j. concat X ! (i * c + j)) = X"
    by (rule mat_eqI [of r c]) (simp_all add: X nth_concat_is_mat [OF X])
  then show ?thesis
    by (simp add: reshape_def length_concat_is_mat [OF X])
qed

lemma is_mat_put: "is_mat r c X \<Longrightarrow> is_mat r c (put p X)"
proof -
  assume X: "is_mat r c X"
  obtain a b v where p: "p = ((a, b), v)" by (cases p) auto
  show ?thesis
  proof (cases "a < length X")
    case True
    then show ?thesis using X
      by (auto simp: p put_def is_mat_def list_all_length nth_list_update)
  next
    case False
    then have "X[a := (X ! a)[b := v]] = X" by (simp add: list_update_beyond)
    then show ?thesis using X by (simp add: p put_def)
  qed
qed

lemma nth_put:
  "is_mat r c X \<Longrightarrow> i < r \<Longrightarrow> j < c \<Longrightarrow> fst p = (a, b) \<Longrightarrow> a < r \<Longrightarrow> b < c \<Longrightarrow>
   put p X ! i ! j = (if (i, j) = (a, b) then snd p else X ! i ! j)"
  by (cases p) (auto simp: put_def is_mat_def list_all_length nth_list_update)

lemma fold_put_map:
  assumes "is_mat r c X" and "\<forall>p\<in>set idx. fst p < r \<and> snd p < c"
  shows "is_mat r c (fold put (zip idx (map f idx)) X) \<and>
         (\<forall>i<r. \<forall>j<c. fold put (zip idx (map f idx)) X ! i ! j =
            (if (i, j) \<in> set idx then f (i, j) else X ! i ! j))"
  using assms
proof (induction idx arbitrary: X)
  case Nil
  then show ?case by simp
next
  case (Cons p idx)
  obtain a b where p: "p = (a, b)" by (cases p)
  from Cons.prems have ab: "a < r" "b < c" and idx: "\<forall>p\<in>set idx. fst p < r \<and> snd p < c"
    by (auto simp: p)
  let ?X = "put (p, f p) X"
  have X': "is_mat r c ?X" by (rule is_mat_put [OF Cons.prems(1)])
  have ent: "?X ! i ! j = (if (i, j) = (a, b) then f p else X ! i ! j)" if "i < r" "j < c" for i j
    using nth_put [OF Cons.prems(1) that, of "(p, f p)" a b] ab p by simp
  from Cons.IH [OF X' idx] ent show ?case
    by (auto simp: p)
qed

lemma set_tril_indices: "set (tril_indices n) = {(i, j). i < n \<and> j \<le> i}"
  by (auto simp: tril_indices_def simp del: upt_Suc)

lemma getitem_tril_roundtrip:
  assumes C: "is_mat n n C" and low: "lower_triangular n C"
  shows "setitem (zeros n n) (tril_indices n) (getitem C (tril_indices n)) = Inr C"
proof -
  let ?idx = "tril_indices n"
  let ?f = "\<lambda>(i, j). C ! i ! j"
  let ?R = "fold put (zip ?idx (map ?f ?idx)) (zeros n n)"
  have idx: "\<forall>p\<in>set ?idx. fst p < n \<and> snd p < n"
    by (auto simp: set_tril_indices)
  have Z: "is_mat n n (zeros n n)" by (simp add: zeros_def)
  from fold_put_map [OF Z idx, of ?f]
  have R: "is_mat n n ?R"
    and ent: "\<And>i j. i < n \<Longrightarrow> j < n \<Longrightarrow>
                ?R ! i ! j = (if (i, j) \<in> set ?idx then C ! i ! j else zeros n n ! i ! j)"
    by auto
  have "?R = C"
  proof (rule mat_eqI [OF R C])
    fix i j assume ij: "i < n" "j < n"
    show "?R ! i ! j = C ! i ! j"
    proof (cases "j \<le> i")
      case True
      then show ?thesis using ent [OF ij] ij by (simp add: set_tril_indices)
    next
      case False
      then have "C ! i ! j = 0" using low ij by (simp add: lower_triangular_def)
      then show ?thesis using ent [OF ij] ij False by (simp add: set_tril_indices zeros_def)
    qed
  qed
  then show ?thesis by (simp add: setitem_def getitem_def)
qed

text \<open>
  Claim C3.  For every \<open>n\<close>, all \<open>n \<times> n\<close> matrices \<open>A\<close> and \<open>B\<close> and every lower-triangular
  \<open>n \<times> n\<close> matrix \<open>C\<close>, decoding the encoded vector gives back the three matrices: the
  entries of \<open>C\<close> on and below the diagonal are recovered and the others are zero.
\<close>

theorem codec_roundtrip:
  assumes A: "is_mat n n A" and B: "is_mat n n B" and C: "is_mat n n C"
    and low: "lower_triangular n C"
  shows "convert_theta_to_abc (convert_abc_to_theta A B C) n = Inr (A, B, C)"
proof -
  let ?t = "getitem C (tril_indices n)"
  have lA: "length (concat A) = n ^ 2" and lB: "length (concat B) = n ^ 2"
    using length_concat_is_mat [OF A] length_concat_is_mat [OF B] by (simp_all add: power2_eq_square)
  have theta: "convert_abc_to_theta A B C = concat A @ concat B @ ?t"
    using C by (simp add: convert_abc_to_theta_def is_mat_nrows)
  have s1: "slice (concat A @ concat B @ ?t) 0 (n ^ 2) = concat A"
    by (simp add: slice_def lA)
  have s2: "slice (concat A @ concat B @ ?t) (n ^ 2) (2 * n ^ 2) = concat B"
    by (simp add: slice_def lA lB)
  have s3: "drop (2 * n ^ 2) (concat A @ concat B @ ?t) = ?t"
    by (simp add: lA lB)
  show ?thesis
    unfolding theta convert_theta_to_abc_def s1 s2 s3
    by (simp add: reshape_concat [OF A] reshape_concat [OF B] getitem_tril_roundtrip [OF C low])
qed

theorem codec_roundtrip_witness:
  "is_mat 2 2 [[1, 2], [3, 4]] \<and> is_mat 2 2 [[5, 6], [7, 8]] \<and> is_mat 2 2 [[9, 0], [10, 11]]
   \<and> lower_triangular 2 [[9, 0], [10, 11]]
   \<and> convert_theta_to_abc (convert_abc_to_theta [[1, 2], [3, 4]] [[5, 6], [7, 8]] [[9, 0], [10, 11]]) 2
       = Inr ([[1, 2], [3, 4]], [[5, 6], [7, 8]], [[9, 0], [10, 11]])"
proof -
  have h: "is_mat 2 2 [[1, 2], [3, 4]]" "is_mat 2 2 [[5, 6], [7, 8]]" "is_mat 2 2 [[9, 0], [10, 11]]"
    by (simp_all add: is_mat_def)
  have l: "lower_triangular 2 [[9, 0], [10, 11]]"
    by (auto simp: lower_triangular_def less_2_cases_iff)
  from h l codec_roundtrip [OF h l] show ?thesis by simp
qed

section \<open>Errors of the codec\<close>

lemma length_tril_indices: "length (tril_indices n) = n * (n + 1) div 2"
proof (induction n)
  case 0
  show ?case by (simp add: tril_indices_def)
next
  case (Suc n)
  have "tril_indices (Suc n) = tril_indices n @ map (\<lambda>j. (n, j)) [0..<Suc n]"
    by (simp add: tril_indices_def)
  then have "length (tril_indices (Suc n)) = n * (n + 1) div 2 + Suc n"
    using Suc.IH by simp
  also have "\<dots> = Suc n * (Suc n + 1) div 2"
    by (simp add: algebra_simps)
  finally show ?case .
qed

lemma reshape_error: "reshape xs r c = Inl e \<longleftrightarrow> (length xs \<noteq> r * c \<and> e = ValueError)"
  by (auto simp: reshape_def)

lemma reshape_Inr: "length xs = r * c \<Longrightarrow> \<exists>X. reshape xs r c = Inr X \<and> is_mat r c X"
  by (simp add: reshape_def)

lemma length_slice: "length (slice xs a b) = min b (length xs) - a"
  by (simp add: slice_def)

lemma slices_fit:
  "length (slice theta 0 (n ^ 2)) = n * n \<and> length (slice theta (n ^ 2) (2 * n ^ 2)) = n * n
   \<longleftrightarrow> 2 * n ^ 2 \<le> length theta"
  by (auto simp: length_slice power2_eq_square min_def)

lemma convert_theta_to_ab_error:
  "convert_theta_to_ab theta n = Inl e \<longleftrightarrow> (length theta < 2 * n ^ 2 \<and> e = ValueError)"
proof (cases "2 * n ^ 2 \<le> length theta")
  case True
  then have l: "length (slice theta 0 (n ^ 2)) = n * n" "length (slice theta (n ^ 2) (2 * n ^ 2)) = n * n"
    using slices_fit [of theta n] by simp_all
  from reshape_Inr [OF l(1)] reshape_Inr [OF l(2)] True show ?thesis
    by (auto simp: convert_theta_to_ab_def)
next
  case False
  then have "length (slice theta 0 (n ^ 2)) \<noteq> n * n \<or> length (slice theta (n ^ 2) (2 * n ^ 2)) \<noteq> n * n"
    using slices_fit [of theta n] by simp
  then show ?thesis using False
    by (auto simp: convert_theta_to_ab_def reshape_def split: sum.splits)
qed


lemma setitem_error:
  "setitem X idx vals = Inl e \<longleftrightarrow> (length vals \<noteq> length idx \<and> length vals \<noteq> 1 \<and> e = ValueError)"
  by (auto simp: setitem_def)

lemma convert_theta_to_abc_error:
  "convert_theta_to_abc theta n = Inl e \<longleftrightarrow>
     ((length theta < 2 * n ^ 2
       \<or> (length theta - 2 * n ^ 2 \<noteq> n * (n + 1) div 2 \<and> length theta - 2 * n ^ 2 \<noteq> 1))
      \<and> e = ValueError)"
proof (cases "2 * n ^ 2 \<le> length theta")
  case True
  then have l: "length (slice theta 0 (n ^ 2)) = n * n" "length (slice theta (n ^ 2) (2 * n ^ 2)) = n * n"
    using slices_fit [of theta n] by simp_all
  from reshape_Inr [OF l(1)] reshape_Inr [OF l(2)] True show ?thesis
    by (auto simp: convert_theta_to_abc_def setitem_def length_tril_indices
        split: sum.splits if_splits)
next
  case False
  then have "length (slice theta 0 (n ^ 2)) \<noteq> n * n \<or> length (slice theta (n ^ 2) (2 * n ^ 2)) \<noteq> n * n"
    using slices_fit [of theta n] by simp
  then show ?thesis using False
    by (auto simp: convert_theta_to_abc_def reshape_def split: sum.splits)
qed

lemma likelihood_shape_error:
  "length theta < 2 * (ncols u) ^ 2 \<Longrightarrow> likelihood theta u = Inl ValueError"
  using convert_theta_to_ab_error [of theta "ncols u" ValueError]
  by (simp add: likelihood_def likelihood_state_def)

lemma simulate_BEKK_shape_error:
  "convert_theta_to_abc theta n = Inl err \<Longrightarrow> simulate_BEKK theta n e = Some (Inl err)"
  by (simp add: simulate_BEKK_def)

text \<open>
  Claim C7, as the code has it.  \<open>convert_theta_to_abc\<close> raises (numpy's \<open>ValueError\<close>)
  exactly when \<open>\<theta>\<close> is shorter than \<open>2n\<^sup>2\<close> or the number of its entries beyond \<open>2n\<^sup>2\<close> is
  neither \<open>n(n+1)/2\<close> nor \<open>1\<close>: a single trailing entry is broadcast to the whole
  triangle of \<open>C\<close>.  \<open>convert_theta_to_ab\<close> raises exactly when \<open>\<theta>\<close> is shorter than \<open>2n\<^sup>2\<close>.
  The callers \<open>likelihood\<close> and \<open>simulate_BEKK\<close> pass the error on.
\<close>

theorem decode_errors:
  "(convert_theta_to_abc theta n = Inl ValueError \<longleftrightarrow>
      (length theta < 2 * n ^ 2
       \<or> (length theta - 2 * n ^ 2 \<noteq> n * (n + 1) div 2 \<and> length theta - 2 * n ^ 2 \<noteq> 1)))
   \<and> (convert_theta_to_ab theta n = Inl ValueError \<longleftrightarrow> length theta < 2 * n ^ 2)
   \<and> (length theta < 2 * (ncols u) ^ 2 \<longrightarrow> likelihood theta u = Inl ValueError)
   \<and> (convert_theta_to_abc theta n = Inl ValueError \<longrightarrow> simulate_BEKK theta n e = Some (Inl ValueError))"
  by (simp add: convert_theta_to_abc_error convert_theta_to_ab_error likelihood_shape_error
      simulate_BEKK_shape_error)

theorem decode_errors_witness:
  "convert_theta_to_abc [1, 2, 3, 4, 5, 6, 7, 8, 9, 10] 2 = Inl ValueError
   \<and> convert_theta_to_ab [1, 2, 3, 4, 5, 6, 7] 2 = Inl ValueError
   \<and> likelihood [1, 2, 3, 4, 5, 6, 7] [[1, 2], [3, 4]] = Inl ValueError
   \<and> simulate_BEKK [1, 2, 3, 4, 5, 6, 7, 8, 9, 10] 2 [] = Some (Inl ValueError)"
proof -
  have c: "ncols [[1, 2], [3, 4]] = 2"
    by (simp add: ncols_def)
  show ?thesis
    using decode_errors [of "[1, 2, 3, 4, 5, 6, 7, 8, 9, 10]" 2 "[[1, 2], [3, 4]]" "[]"]
      decode_errors [of "[1, 2, 3, 4, 5, 6, 7]" 2 "[[1, 2], [3, 4]]" "[]"]
    by (simp add: c)
qed

text \<open>
  Claim C7 as stated fails: a vector of length \<open>9\<close> is decoded for \<open>n = 2\<close>, where
  \<open>2n\<^sup>2 + n(n+1)/2 = 11\<close>.
\<close>

theorem decode_full_counterexample:
  "length [1, 2, 3, 4, 5, 6, 7, 8, 9 :: real] \<noteq> 2 * 2 ^ 2 + 2 * (2 + 1) div 2
   \<and> convert_theta_to_abc [1, 2, 3, 4, 5, 6, 7, 8, 9] 2
       = Inr ([[1, 2], [3, 4]], [[5, 6], [7, 8]], [[9, 0], [9, 9]])"
  by (simp add: convert_theta_to_abc_def reshape_def slice_def setitem_def tril_indices_def
      zeros_def mat_def put_def upt_rec [of _ "numeral _"] upt_rec [of _ "Suc _"])

section \<open>Square matrices\<close>

lemma ncols_mat: "ncols (mat r c f) = (if r = 0 then 0 else c)"
  by (cases r) (simp_all add: ncols_def mat_def upt_conv_Cons del: upt_Suc)

lemma nrows_mat [simp]: "nrows (mat r c f) = r"
  by (simp add: nrows_def)

lemma ncols_mat_square [simp]: "ncols (mat n n f) = n"
  by (simp add: ncols_mat)

lemma sum_list_upt: "(\<Sum>k\<leftarrow>[0..<n]. f k) = (\<Sum>k = 0..<n. f k)"
  by (simp add: interv_sum_list_conv_sum_set_nat)

lemma transpose_square: "is_mat n n X \<Longrightarrow> transpose_m X = mat n n (\<lambda>i j. X ! j ! i)"
  by (simp add: transpose_m_def is_mat_nrows is_mat_ncols_square)

lemma dot_square:
  "is_mat n n X \<Longrightarrow> is_mat n n Y \<Longrightarrow> dot X Y = mat n n (\<lambda>i j. \<Sum>k = 0..<n. X ! i ! k * Y ! k ! j)"
  by (simp add: dot_def is_mat_nrows is_mat_ncols_square sum_list_upt)

lemma add_square: "is_mat n n X \<Longrightarrow> add X Y = mat n n (\<lambda>i j. X ! i ! j + Y ! i ! j)"
  by (simp add: add_def is_mat_nrows is_mat_ncols_square)

lemma sub_square: "is_mat n n X \<Longrightarrow> sub X Y = mat n n (\<lambda>i j. X ! i ! j - Y ! i ! j)"
  by (simp add: sub_def is_mat_nrows is_mat_ncols_square)




lemma is_mat_sub: "is_mat n n X \<Longrightarrow> is_mat n n (sub X Y)"
  by (simp add: sub_square)

lemma is_mat_outer: "length x = n \<Longrightarrow> is_mat n n (outer x)"
  by (auto simp: outer_def)

lemma is_mat_zeros [simp]: "is_mat r c (zeros r c)"
  by (simp add: zeros_def)

lemma mat_cong: "(\<And>i j. i < r \<Longrightarrow> j < c \<Longrightarrow> f i j = g i j) \<Longrightarrow> mat r c f = mat r c g"
  by (rule mat_eqI [of r c]) simp_all

text \<open>The sample second moment, entry by entry.\<close>

lemma estimate_H0_entries:
  assumes u: "is_mat T n u" and T: "0 < T"
  shows "estimate_H0 u = mat n n (\<lambda>i j. (\<Sum>t = 0..<T. u ! t ! i * u ! t ! j) / real T)"
proof -
  have r: "nrows u = T" and c: "ncols u = n"
    using u T by (simp_all add: is_mat_nrows is_mat_ncols)
  have tr: "transpose_m u = mat n T (\<lambda>i j. u ! j ! i)"
    by (simp add: transpose_m_def r c)
  have d: "dot (transpose_m u) u = mat n n (\<lambda>i j. \<Sum>t = 0..<T. u ! t ! i * u ! t ! j)"
  proof (rule mat_eqI [of n n])
    show "is_mat n n (dot (transpose_m u) u)"
      by (simp add: dot_def tr c)
    show "is_mat n n (mat n n (\<lambda>i j. \<Sum>t = 0..<T. u ! t ! i * u ! t ! j))"
      by simp
  next
    fix i j assume ij: "i < n" "j < n"
    then have "ncols (mat n T (\<lambda>i j. u ! j ! i)) = T"
      by (simp add: ncols_mat)
    then show "dot (transpose_m u) u ! i ! j = mat n n (\<lambda>i j. \<Sum>t = 0..<T. u ! t ! i * u ! t ! j) ! i ! j"
      using ij by (simp add: dot_def tr c sum_list_upt)
  qed
  show ?thesis
    unfolding estimate_H0_def Let_def d divide_m_def r
    by (simp, rule mat_cong) simp
qed

lemma is_mat_estimate_H0: "is_mat T n u \<Longrightarrow> 0 < T \<Longrightarrow> is_mat n n (estimate_H0 u)"
  by (simp add: estimate_H0_entries)

text \<open>The loop.\<close>

lemma foldM_append:
  "foldM f (xs @ ys) s = (case foldM f xs s of Inl e \<Rightarrow> Inl e | Inr s' \<Rightarrow> foldM f ys s')"
  by (induction xs arbitrary: s) (auto split: sum.splits)

lemma contribution_Inr: "\<exists>c. contribution x H = Inr c"
proof (cases "det H = 0")
  case True
  then show ?thesis by (simp add: contribution_def isclose_def)
next
  case False
  then show ?thesis by (simp add: contribution_def inv_def Let_def)
qed

lemma likelihood_step_eq:
  assumes "0 < t" and "t < length H"
  shows "likelihood_step A B u t (H, f) =
     (case contribution (u ! t) (estimation_next A B u H t) of
        Inl e \<Rightarrow> Inl e
      | Inr c \<Rightarrow> Inr (H[t := estimation_next A B u H t], f + c))"
proof -
  let ?X1 = "add (H ! 0) (dot (dot A (sub (outer (u ! (t - 1))) (H ! 0))) (transpose_m A))"
  let ?X2 = "add ?X1 (dot (dot B (sub (H ! (t - 1)) (H ! 0))) (transpose_m B))"
  let ?H1 = "H[t := H ! 0]"
  let ?H2 = "?H1[t := add (?H1 ! t) (dot (dot A (sub (outer (u ! (t - 1))) (?H1 ! 0))) (transpose_m A))]"
  let ?H3 = "?H2[t := add (?H2 ! t) (dot (dot B (sub (?H2 ! (t - 1)) (?H2 ! 0))) (transpose_m B))]"
  have h2: "?H2 = H[t := ?X1]" using assms by simp
  have h3: "?H3 = H[t := ?X2]" unfolding h2 using assms by simp
  have at: "?H3 ! t = ?X2" unfolding h3 using assms by simp
  have "likelihood_step A B u t (H, f) =
     (case contribution (u ! t) (?H3 ! t) of Inl e \<Rightarrow> Inl e | Inr c \<Rightarrow> Inr (?H3, f + c))"
    by (simp only: likelihood_step_def Let_def prod.case)
  then show ?thesis
    unfolding at unfolding h3 by (simp only: estimation_next_def)
qed

lemma likelihood_step_Inr:
  assumes "0 < t" and "t < length H"
  shows "\<exists>c. likelihood_step A B u t (H, f) = Inr (H[t := estimation_next A B u H t], f + c)"
  using contribution_Inr [of "u ! t" "estimation_next A B u H t"]
  by (auto simp: likelihood_step_eq [OF assms])

lemma likelihood_loop:
  assumes "0 < T" and "length H = T" and "H ! 0 = H0" and "0 < k" and "k \<le> T"
  shows "\<exists>H' f'. foldM (likelihood_step A B u) [1..<k] (H, f) = Inr (H', f') \<and> path_upto A B u H0 T k H'"
  using \<open>0 < k\<close> \<open>k \<le> T\<close>
proof (induction k)
  case 0
  then show ?case by simp
next
  case (Suc k)
  show ?case
  proof (cases "k = 0")
    case True
    then show ?thesis using assms by (simp add: path_upto_def)
  next
    case False
    then have k: "0 < k" "k \<le> T" "k < T" using Suc.prems by simp_all
    from Suc.IH [OF k(1,2)] obtain H' f' where
      run: "foldM (likelihood_step A B u) [1..<k] (H, f) = Inr (H', f')"
      and inv: "path_upto A B u H0 T k H'" by blast
    from inv have len: "length H' = T" and h0: "H' ! 0 = H0"
      and old: "\<And>t. 0 < t \<Longrightarrow> t < k \<Longrightarrow> H' ! t = estimation_next A B u H' t"
      by (simp_all add: path_upto_def)
    let ?N = "estimation_next A B u H' k"
    from likelihood_step_Inr [OF k(1), of H' A B u f'] k(3) len obtain c where
      step: "likelihood_step A B u k (H', f') = Inr (H'[k := ?N], f' + c)" by auto
    have up: "[1..<Suc k] = [1..<k] @ [k]" using k(1) by simp
    have run': "foldM (likelihood_step A B u) [1..<Suc k] (H, f) = Inr (H'[k := ?N], f' + c)"
      by (simp only: up foldM_append run sum.case foldM.simps step)
    have same: "estimation_next A B u (H'[k := ?N]) t = estimation_next A B u H' t"
      if "0 < t" "t \<le> k" for t
      using that k(1) by (simp add: estimation_next_def)
    have "path_upto A B u H0 T (Suc k) (H'[k := ?N])"
      unfolding path_upto_def
    proof (intro conjI allI impI)
      show "length (H'[k := ?N]) = T" using len by simp
      show "H'[k := ?N] ! 0 = H0" using h0 k(1) by simp
    next
      fix t assume t: "0 < t \<and> t < Suc k"
      show "H'[k := ?N] ! t = estimation_next A B u (H'[k := ?N]) t"
      proof (cases "t = k")
        case True
        then show ?thesis using same [of k] k len by simp
      next
        case False
        then have "t < k" using t by simp
        then show ?thesis using same [of t] old [of t] t by simp
      qed
    qed
    with run' show ?thesis by blast
  qed
qed

lemma likelihood_state_run:
  assumes u: "is_mat T n u" and T: "0 < T" and ab: "convert_theta_to_ab theta n = Inr (A, B)"
  shows "\<exists>H f. likelihood_state theta u = Inr (H, f) \<and> path_upto A B u (estimate_H0 u) T T H"
proof -
  have r: "nrows u = T" and c: "ncols u = n"
    using u T by (simp_all add: is_mat_nrows is_mat_ncols)
  let ?H = "(empty_buffer T n)[0 := estimate_H0 u]"
  have len: "length ?H = T" by (simp add: empty_buffer_def)
  have h0: "?H ! 0 = estimate_H0 u" using T by (simp add: empty_buffer_def)
  obtain f0 where f0: "contribution (u ! 0) (estimate_H0 u) = Inr f0"
    using contribution_Inr by blast
  have "likelihood_state theta u = foldM (likelihood_step A B u) [1..<T] (?H, f0)"
    unfolding likelihood_state_def Let_def r c ab h0 f0 using T by simp
  with likelihood_loop [OF T len h0 T order_refl, of A B u f0]
  show ?thesis by simp
qed

section \<open>Symmetry and zero coefficients\<close>











text \<open>Zero coefficient matrices.\<close>

lemma dot_zeros_left: "is_mat n n X \<Longrightarrow> dot (zeros n n) X = zeros n n"
  unfolding zeros_def
  by (subst dot_square [of n]) (simp_all, rule mat_cong, simp)

lemma transpose_zeros: "transpose_m (zeros n n) = zeros n n"
  unfolding zeros_def
  by (subst transpose_square [of n]) (simp_all, rule mat_cong, simp)

lemma add_zeros_right: "is_mat n n X \<Longrightarrow> add X (zeros n n) = X"
  by (rule mat_eqI [of n n]) (simp_all add: add_square zeros_def)

lemma estimation_next_zeros:
  assumes H0: "is_mat n n (H ! 0)" and Hp: "is_mat n n (H ! (t - 1))" and x: "length (u ! (t - 1)) = n"
  shows "estimation_next (zeros n n) (zeros n n) u H t = H ! 0"
proof -
  have 1: "dot (zeros n n) (sub (outer (u ! (t - 1))) (H ! 0)) = zeros n n"
    by (intro dot_zeros_left is_mat_sub is_mat_outer x)
  have 2: "dot (zeros n n) (sub (H ! (t - 1)) (H ! 0)) = zeros n n"
    by (intro dot_zeros_left is_mat_sub Hp)
  show ?thesis
    unfolding estimation_next_def 1 2 transpose_zeros
    by (simp add: dot_zeros_left add_zeros_right H0)
qed

lemma path_constant:
  assumes u: "is_mat T n u" and T: "0 < T"
    and p: "path_upto (zeros n n) (zeros n n) u (estimate_H0 u) T T H"
  shows "t < T \<Longrightarrow> H ! t = estimate_H0 u"
proof (induction t)
  case 0
  from p show ?case by (simp add: path_upto_def)
next
  case (Suc t)
  then have t: "t < T" by simp
  from p have h0: "H ! 0 = estimate_H0 u"
    and eq: "H ! Suc t = estimation_next (zeros n n) (zeros n n) u H (Suc t)"
    using Suc.prems by (simp_all add: path_upto_def)
  have H0: "is_mat n n (H ! 0)"
    unfolding h0 by (rule is_mat_estimate_H0 [OF u T])
  have Hp: "is_mat n n (H ! (Suc t - 1))"
    using Suc.IH [OF t] is_mat_estimate_H0 [OF u T] by simp
  have x: "length (u ! (Suc t - 1)) = n"
    using is_mat_row [OF u t] by simp
  show ?case
    unfolding eq estimation_next_zeros [OF H0 Hp x] by (rule h0)
qed

section \<open>The covariance path of the likelihood\<close>

text \<open>
  Claim C2.  In estimation mode, for every innovation series \<open>u\<close> of \<open>T \<ge> 1\<close> rows and the
  matrices \<open>A\<close>, \<open>B\<close> decoded from \<open>\<theta>\<close>, the covariance path of \<open>likelihood\<close> has
  \<open>H(0) = u\<^sup>T u / T\<close> and, for every \<open>t\<close> from \<open>1\<close> to \<open>T - 1\<close>,
  \<open>H(t) = H(0) + A (u(t-1) u(t-1)\<^sup>T - H(0)) A\<^sup>T + B (H(t-1) - H(0)) B\<^sup>T\<close>.
\<close>

theorem estimation_path:
  assumes "is_mat T n u" and "0 < T" and "convert_theta_to_ab theta n = Inr (A, B)"
  shows "\<exists>H f. likelihood_state theta u = Inr (H, f) \<and> length H = T
           \<and> H ! 0 = mat n n (\<lambda>i j. (\<Sum>t = 0..<T. u ! t ! i * u ! t ! j) / real T)
           \<and> (\<forall>t\<in>{1..<T}. H ! t =
                 add (add (H ! 0) (dot (dot A (sub (outer (u ! (t - 1))) (H ! 0))) (transpose_m A)))
                     (dot (dot B (sub (H ! (t - 1)) (H ! 0))) (transpose_m B)))"
proof -
  from likelihood_state_run [OF assms] obtain H f where
    run: "likelihood_state theta u = Inr (H, f)"
    and p: "path_upto A B u (estimate_H0 u) T T H" by blast
  from p have "length H = T" and "H ! 0 = estimate_H0 u"
    and "\<forall>t\<in>{1..<T}. H ! t = estimation_next A B u H t"
    by (simp_all add: path_upto_def)
  with run show ?thesis
    unfolding estimation_next_def estimate_H0_entries [OF assms(1,2)] by blast
qed

theorem estimation_path_witness:
  "is_mat 2 1 [[1], [2]] \<and> (0::nat) < 2
   \<and> convert_theta_to_ab [1 / 2, 1 / 3] 1 = Inr ([[1 / 2]], [[1 / 3]])
   \<and> (\<exists>H f. likelihood_state [1 / 2, 1 / 3] [[1], [2]] = Inr (H, f) \<and> length H = 2
          \<and> H ! 0 = [[5 / 2]] \<and> H ! 1 = [[17 / 8]])"
proof -
  have u: "is_mat 2 1 [[1], [2]]"
    by (simp add: is_mat_def)
  have ab: "convert_theta_to_ab [1 / 2, 1 / 3] 1 = Inr ([[1 / 2]], [[1 / 3]])"
    by (simp add: convert_theta_to_ab_def reshape_def slice_def mat_def)
  have T: "(0::nat) < 2" by simp
  from estimation_path [OF u T ab] obtain H f where
    run: "likelihood_state [1 / 2, 1 / 3] [[1], [2]] = Inr (H, f)" and len: "length H = 2"
    and h0: "H ! 0 = mat 1 1 (\<lambda>i j. (\<Sum>t = 0..<2. [[1], [2]] ! t ! i * [[1], [2]] ! t ! j) / real 2)"
    and h1: "H ! 1 = add (add (H ! 0) (dot (dot [[1 / 2]] (sub (outer ([[1], [2]] ! (1 - 1))) (H ! 0)))
                                          (transpose_m [[1 / 2]])))
                        (dot (dot [[1 / 3]] (sub (H ! (1 - 1)) (H ! 0))) (transpose_m [[1 / 3]]))"
    by auto
  have h0': "H ! 0 = [[5 / 2]]"
    unfolding h0 by (simp add: mat_def sum.atLeast_Suc_lessThan numeral_2_eq_2)
  have h1': "H ! 1 = [[17 / 8]]"
    unfolding h1 by (simp add: h0' add_def sub_def dot_def transpose_m_def outer_def mat_def
        nrows_def ncols_def)
  from u T ab run len h0' h1' show ?thesis by blast
qed

text \<open>
  Claim C8.  With \<open>A = 0\<close> and \<open>B = 0\<close> the covariance path of the estimation mode is
  constant: \<open>H(t) = H(0) = u\<^sup>T u / T\<close> for every \<open>t\<close> below \<open>T\<close>.
\<close>

theorem white_noise_path:
  assumes "is_mat T n u" and "0 < T"
    and "convert_theta_to_ab theta n = Inr (zeros n n, zeros n n)"
  shows "\<exists>H f. likelihood_state theta u = Inr (H, f) \<and> length H = T
           \<and> (\<forall>t<T. H ! t = H ! 0
                  \<and> H ! t = mat n n (\<lambda>i j. (\<Sum>s = 0..<T. u ! s ! i * u ! s ! j) / real T))"
proof -
  from likelihood_state_run [OF assms] obtain H f where
    run: "likelihood_state theta u = Inr (H, f)"
    and p: "path_upto (zeros n n) (zeros n n) u (estimate_H0 u) T T H" by blast
  from p have len: "length H = T" by (simp add: path_upto_def)
  have "\<forall>t<T. H ! t = H ! 0 \<and> H ! t = estimate_H0 u"
    using path_constant [OF assms(1,2) p] assms(2) by simp
  with run len show ?thesis
    unfolding estimate_H0_entries [OF assms(1,2)] by blast
qed

theorem white_noise_path_witness:
  "is_mat 3 1 [[1], [2], [3]] \<and> (0::nat) < 3
   \<and> convert_theta_to_ab [0, 0] 1 = Inr (zeros 1 1, zeros 1 1)
   \<and> (\<exists>H f. likelihood_state [0, 0] [[1], [2], [3]] = Inr (H, f) \<and> length H = 3
          \<and> H ! 0 = [[14 / 3]] \<and> H ! 1 = [[14 / 3]] \<and> H ! 2 = [[14 / 3]])"
proof -
  have u: "is_mat 3 1 [[1], [2], [3]]"
    by (simp add: is_mat_def)
  have ab: "convert_theta_to_ab [0, 0] 1 = Inr (zeros 1 1, zeros 1 1)"
    by (simp add: convert_theta_to_ab_def reshape_def slice_def mat_def zeros_def)
  have T: "(0::nat) < 3" by simp
  from white_noise_path [OF u T ab] obtain H f where
    run: "likelihood_state [0, 0] [[1], [2], [3]] = Inr (H, f)" and len: "length H = 3"
    and h: "\<forall>t<3. H ! t = mat 1 1 (\<lambda>i j. (\<Sum>s = 0..<3. [[1], [2], [3]] ! s ! i * [[1], [2], [3]] ! s ! j) / real 3)"
    by auto
  have v: "mat 1 1 (\<lambda>i j. (\<Sum>s = 0..<3. [[1], [2], [3]] ! s ! i * [[1], [2], [3]] ! s ! j) / real 3)
             = [[14 / 3]]"
    by (simp add: mat_def sum.atLeast_Suc_lessThan numeral_3_eq_3)
  from h have "H ! 0 = [[14 / 3]]" "H ! 1 = [[14 / 3]]" "H ! 2 = [[14 / 3]]"
    unfolding v by simp_all
  with u T ab run len show ?thesis by blast
qed






section \<open>The contribution of one step\<close>





section \<open>Simulation with an unknown distribution\<close>

text \<open>
  Claim C10.  \<open>simulate_bekk\<close> raises \<open>ValueError\<close> for every \<open>distr\<close> other than
  \<open>normal\<close>, \<open>student\<close> and \<open>skewt\<close>, before anything is drawn or computed: no
  innovation or covariance is returned and the state of the random number generator is
  the one it was called with.
\<close>

theorem unknown_distribution:
  assumes "distr \<notin> {''normal'', ''student'', ''skewt''}"
  shows "simulate_bekk smp param nobs distr degf lam g = (Inl ValueError, g)"
  using assms by (simp add: simulate_bekk_def draw_errors_def)

theorem unknown_distribution_witness:
  "''gauss'' \<notin> {''normal'', ''student'', ''skewt''}
   \<and> simulate_bekk counting_samplers
         \<lparr>a_mat = [[0]], b_mat = [[0]], c_mat = [[1]], unconditional_var = [[1]]\<rparr>
         2 ''gauss'' 10 0 (7::nat) = (Inl ValueError, 7)"
proof -
  have h: "''gauss'' \<notin> {''normal'', ''student'', ''skewt''}" by simp
  show ?thesis
    using unknown_distribution [OF h, of counting_samplers _ 2 10 0 7] h by simp
qed

section \<open>The loop of the stationary covariance\<close>

lemma stationary_loop_step:
  "goes_on i nrm \<Longrightarrow>
   stationary_loop A B C i nrm H =
     stationary_loop A B C (i + 1) (norm_fro (sub (stationary_next A B C H) H)) (stationary_next A B C H)"
  by (subst stationary_loop.simps) (simp add: goes_on_def Let_def)

lemma stationary_loop_stop:
  "\<not> goes_on i nrm \<Longrightarrow> stationary_loop A B C i nrm H = Some (i, nrm, H)"
  by (subst stationary_loop.simps) (simp add: goes_on_def)

lemma norm_after_shift:
  "norm_after A B C (norm_fro (sub (stationary_next A B C H) H)) (stationary_next A B C H) k
     = norm_after A B C nrm H (Suc k)"
  by (cases k) (simp_all add: norm_after_def funpow_swap1)

text \<open>If the loop returns, it returns the state after some number of passes, at the first
  pass where its condition fails.\<close>

lemma stationary_loop_returns:
  assumes "stationary_loop A B C i nrm H = Some r"
  shows "\<exists>k. r = (i + k, norm_after A B C nrm H k, (stationary_next A B C ^^ k) H)
           \<and> \<not> goes_on (i + k) (norm_after A B C nrm H k)
           \<and> (\<forall>j<k. goes_on (i + j) (norm_after A B C nrm H j))"
proof -
  define P where "P = (\<lambda>A B C i nrm H r.
     \<exists>k. r = (i + k, norm_after A B C nrm H k, (stationary_next A B C ^^ k) H)
           \<and> \<not> goes_on (i + k) (norm_after A B C nrm H k)
           \<and> (\<forall>j<k. goes_on (i + j) (norm_after A B C nrm H j)))"
  have "P A B C i nrm H r"
  proof (rule stationary_loop.raw_induct [where P = P, OF _ assms])
    fix loop A B C i nrm H r
    assume IH: "\<And>A B C i nrm H r. loop A B C i nrm H = Some r \<Longrightarrow> P A B C i nrm H r"
      and eq: "(if 1 / 10 ^ 3 < nrm \<or> i < 1000
                then let Hnew = stationary_next A B C H
                     in loop A B C (i + 1) (norm_fro (sub Hnew H)) Hnew
                else Some (i, nrm, H)) = Some r"
    show "P A B C i nrm H r"
    proof (cases "goes_on i nrm")
      case False
      with eq have "r = (i, nrm, H)" by (simp add: goes_on_def)
      with False show ?thesis
        unfolding P_def by (intro exI [of _ 0]) (simp add: norm_after_def)
    next
      case True
      let ?H = "stationary_next A B C H"
      let ?n = "norm_fro (sub ?H H)"
      from True eq have "loop A B C (i + 1) ?n ?H = Some r"
        by (simp add: goes_on_def Let_def)
      from IH [OF this] obtain k where
        r: "r = (i + 1 + k, norm_after A B C ?n ?H k, (stationary_next A B C ^^ k) ?H)"
        and stop: "\<not> goes_on (i + 1 + k) (norm_after A B C ?n ?H k)"
        and go: "\<forall>j<k. goes_on (i + 1 + j) (norm_after A B C ?n ?H j)"
        unfolding P_def by blast
      show ?thesis
        unfolding P_def
      proof (intro exI [of _ "Suc k"] conjI allI impI)
        show "r = (i + Suc k, norm_after A B C nrm H (Suc k), (stationary_next A B C ^^ Suc k) H)"
          using r by (simp add: norm_after_shift [of A B C H k nrm] funpow_swap1)
        show "\<not> goes_on (i + Suc k) (norm_after A B C nrm H (Suc k))"
          using stop by (simp add: norm_after_shift [of A B C H k nrm])
      next
        fix j assume j: "j < Suc k"
        show "goes_on (i + j) (norm_after A B C nrm H j)"
        proof (cases j)
          case 0
          then show ?thesis using True by (simp add: norm_after_def)
        next
          case (Suc j')
          then have "j' < k" using j by simp
          with go have "goes_on (i + 1 + j') (norm_after A B C ?n ?H j')" by blast
          then show ?thesis
            using Suc by (simp add: norm_after_shift [of A B C H j' nrm])
        qed
      qed
    qed
  qed
  then show ?thesis by (simp add: P_def)
qed

text \<open>If the condition fails after some number of passes, the loop returns.\<close>

lemma stationary_loop_terminates:
  assumes "\<not> goes_on (i + k) (norm_after A B C nrm H k)"
  shows "\<exists>r. stationary_loop A B C i nrm H = Some r"
  using assms
proof (induction k arbitrary: i nrm H)
  case 0
  then have "\<not> goes_on i nrm" by (simp add: norm_after_def)
  then show ?case by (simp add: stationary_loop_stop)
next
  case (Suc k)
  show ?case
  proof (cases "goes_on i nrm")
    case False
    then show ?thesis by (simp add: stationary_loop_stop)
  next
    case True
    let ?H = "stationary_next A B C H"
    let ?n = "norm_fro (sub ?H H)"
    from Suc.prems have "\<not> goes_on (i + 1 + k) (norm_after A B C ?n ?H k)"
      by (simp add: norm_after_shift [of A B C H k nrm])
    from Suc.IH [OF this] show ?thesis
      by (simp add: stationary_loop_step [OF True])
  qed
qed

section \<open>The simulated path\<close>

lemma simulate_step_eq:
  assumes "0 < t" and "t < length H"
  shows "simulate_step A B C e t (H, u) = simulation_update A B C e t (H, u)"
proof -
  let ?X1 = "dot C (transpose_m C)"
  let ?X2 = "add ?X1 (dot (dot A (outer (u ! (t - 1)))) (transpose_m A))"
  let ?X3 = "add ?X2 (dot (dot B (H ! (t - 1))) (transpose_m B))"
  let ?H1 = "H[t := ?X1]"
  let ?H2 = "?H1[t := add (?H1 ! t) (dot (dot A (outer (u ! (t - 1)))) (transpose_m A))]"
  let ?H3 = "?H2[t := add (?H2 ! t) (dot (dot B (?H2 ! (t - 1))) (transpose_m B))]"
  have h2: "?H2 = H[t := ?X2]" using assms by simp
  have h3: "?H3 = H[t := ?X3]" unfolding h2 using assms by simp
  have at: "?H3 ! t = ?X3" unfolding h3 using assms by simp
  have "simulate_step A B C e t (H, u) =
     (case cholesky_lower (?H3 ! t) of
        Inl err \<Rightarrow> Inl err | Inr L \<Rightarrow> Inr (?H3, u[t := mat_dot_vec L (e ! t)]))"
    by (simp only: simulate_step_def Let_def prod.case)
  then show ?thesis
    unfolding at unfolding h3 by (simp only: simulation_update_def simulation_next_def prod.case)
qed

lemma simulate_bekk_step_eq:
  assumes "t < length H"
  shows "simulate_bekk_step param (dot (c_mat param) (transpose_m (c_mat param))) e t (H, u)
           = simulation_update (a_mat param) (b_mat param) (c_mat param) e t (H, u)"
proof -
  let ?X = "simulation_next (a_mat param) (b_mat param) (c_mat param) H u t"
  have at: "H[t := ?X] ! t = ?X" using assms by simp
  show ?thesis
    unfolding simulate_bekk_step_def Let_def prod.case simulation_update_def
    unfolding simulation_next_def [symmetric] at ..
qed

lemma simulation_loop:
  assumes f: "\<And>t H u. 0 < t \<Longrightarrow> t < length H \<Longrightarrow> f t (H, u) = simulation_update A B C e t (H, u)"
    and T: "0 < T" and len: "length H = T" "length u = T"
    and run: "foldM f [1..<k] (H, u) = Inr s" and k: "0 < k" "k \<le> T"
  shows "simulated_upto A B C e (H ! 0) (u ! 0) T k s"
  using run k
proof (induction k arbitrary: s)
  case 0
  then show ?case by simp
next
  case (Suc k)
  show ?case
  proof (cases "k = 0")
    case True
    with Suc.prems have "s = (H, u)" by simp
    then show ?thesis using len True by (simp add: simulated_upto_def)
  next
    case False
    then have k: "0 < k" "k \<le> T" "k < T" using Suc.prems by simp_all
    have up: "[1..<Suc k] = [1..<k] @ [k]" using k(1) by simp
    from Suc.prems(1) obtain s1 where
      run1: "foldM f [1..<k] (H, u) = Inr s1" and last: "f k s1 = Inr s"
      unfolding up foldM_append by (auto split: sum.splits)
    obtain H1 u1 where s1: "s1 = (H1, u1)" by (cases s1)
    from Suc.IH [OF run1 k(1,2)] have inv: "simulated_upto A B C e (H ! 0) (u ! 0) T k (H1, u1)"
      by (simp add: s1)
    then have l1: "length H1 = T" "length u1 = T" and z: "H1 ! 0 = H ! 0" "u1 ! 0 = u ! 0"
      and all: "\<forall>t. 0 < t \<and> t < k \<longrightarrow>
                 H1 ! t = simulation_next A B C H1 u1 t
                 \<and> (\<exists>L. cholesky_lower (H1 ! t) = Inr L \<and> u1 ! t = mat_dot_vec L (e ! t))"
      unfolding simulated_upto_def prod.case by blast+
    have old: "H1 ! t = simulation_next A B C H1 u1 t
                 \<and> (\<exists>L. cholesky_lower (H1 ! t) = Inr L \<and> u1 ! t = mat_dot_vec L (e ! t))"
      if "0 < t" "t < k" for t
      using all that by blast
    let ?N = "simulation_next A B C H1 u1 k"
    have "f k (H1, u1) = simulation_update A B C e k (H1, u1)"
      using f [OF k(1)] k(3) l1 by simp
    with last s1 obtain L where
      L: "cholesky_lower ?N = Inr L" and s: "s = (H1[k := ?N], u1[k := mat_dot_vec L (e ! k)])"
      by (auto simp: simulation_update_def split: sum.splits)
    let ?H = "H1[k := ?N]" and ?u = "u1[k := mat_dot_vec L (e ! k)]"
    have same: "simulation_next A B C ?H ?u t = simulation_next A B C H1 u1 t"
      if "0 < t" "t \<le> k" for t
      using that by (simp add: simulation_next_def)
    have "simulated_upto A B C e (H ! 0) (u ! 0) T (Suc k) (?H, ?u)"
      unfolding simulated_upto_def prod.case
    proof (intro conjI allI impI)
      show "length ?H = T" "length ?u = T" using l1 by simp_all
      show "?H ! 0 = H ! 0" "?u ! 0 = u ! 0" using z k(1) by simp_all
    next
      fix t assume t: "0 < t \<and> t < Suc k"
      show "?H ! t = simulation_next A B C ?H ?u t"
      proof (cases "t = k")
        case True
        then show ?thesis using same [of k] k l1 by simp
      next
        case False
        then have "t < k" using t by simp
        then show ?thesis using same [of t] old [of t] t by simp
      qed
      show "\<exists>L. cholesky_lower (?H ! t) = Inr L \<and> ?u ! t = mat_dot_vec L (e ! t)"
      proof (cases "t = k")
        case True
        then show ?thesis using L k l1 by simp
      next
        case False
        then have tk: "t < k" using t by simp
        have "?H ! t = H1 ! t" "?u ! t = u1 ! t" using False by simp_all
        with old [of t] tk t show ?thesis by auto
      qed
    qed
    then show ?thesis by (simp add: s)
  qed
qed

lemma zeros_row: "0 < r \<Longrightarrow> zeros r c ! 0 = replicate c 0"
  by (simp add: zeros_def map_replicate_const)

lemma simulate_BEKK_path:
  assumes run: "simulate_BEKK theta n e = Some (Inr (u, H))"
  shows "\<exists>A B C. convert_theta_to_abc theta n = Inr (A, B, C)
           \<and> simulated_upto A B C e (H ! 0) (replicate n 0) 1000 1000 (H, u)
           \<and> stationary_H A B C = Some (H ! 0)"
proof -
  from run obtain A B C where abc: "convert_theta_to_abc theta n = Inr (A, B, C)"
    by (auto simp: simulate_BEKK_def split: sum.splits)
  from run abc have n: "n \<noteq> 0"
    by (auto simp: simulate_BEKK_def Let_def split: if_splits)
  from run abc n obtain H0 where h0: "stationary_H A B C = Some H0"
    by (auto simp: simulate_BEKK_def Let_def split: option.splits)
  let ?H = "(empty_buffer 1000 n)[0 := H0]" and ?u = "zeros 1000 n"
  from run abc n h0 have loop: "foldM (simulate_step A B C e) [1..<1000] (?H, ?u) = Inr (H, u)"
    by (auto simp: simulate_BEKK_def Let_def split: sum.splits)
  have len: "length ?H = 1000" "length ?u = 1000"
    by (simp_all add: empty_buffer_def zeros_def)
  have "simulated_upto A B C e (?H ! 0) (?u ! 0) 1000 1000 (H, u)"
    by (rule simulation_loop [OF simulate_step_eq _ len loop]) simp_all
  moreover have "?H ! 0 = H0" by (simp add: empty_buffer_def)
  moreover have "?u ! 0 = replicate n 0" by (simp add: zeros_row)
  ultimately have inv: "simulated_upto A B C e H0 (replicate n 0) 1000 1000 (H, u)" by simp
  then have "H ! 0 = H0" by (simp add: simulated_upto_def)
  with inv abc h0 show ?thesis by auto
qed

lemma simulate_bekk_path:
  assumes run: "simulate_bekk smp param nobs distr degf lam g = (Inr (innov, hvar), g')"
  shows "\<exists>raw. draw_errors smp distr degf lam nobs (nrows (a_mat param)) g = Inr (raw, g')
           \<and> simulated_upto (a_mat param) (b_mat param) (c_mat param) (standardize raw)
                (unconditional_var param) (replicate (nrows (a_mat param)) 0) nobs nobs (hvar, innov)"
proof -
  let ?n = "nrows (a_mat param)"
  from run obtain raw g1 where d: "draw_errors smp distr degf lam nobs ?n g = Inr (raw, g1)"
    by (auto simp: simulate_bekk_def Let_def split: sum.splits)
  from run d have nobs: "0 < nobs" and g1: "g1 = g'"
    by (auto simp: simulate_bekk_def Let_def split: if_splits sum.splits)
  let ?H = "(empty_buffer nobs ?n)[0 := unconditional_var param]" and ?u = "zeros nobs ?n"
  let ?f = "simulate_bekk_step param (dot (c_mat param) (transpose_m (c_mat param))) (standardize raw)"
  from run d nobs have loop: "foldM ?f [1..<nobs] (?H, ?u) = Inr (hvar, innov)"
    by (auto simp: simulate_bekk_def Let_def split: sum.splits)
  have len: "length ?H = nobs" "length ?u = nobs"
    by (simp_all add: empty_buffer_def zeros_def)
  have "simulated_upto (a_mat param) (b_mat param) (c_mat param) (standardize raw)
          (?H ! 0) (?u ! 0) nobs nobs (hvar, innov)"
  proof (rule simulation_loop [OF _ nobs len loop nobs])
    fix t H u assume "0 < t" and "t < length (H :: mat list)"
    then show "?f t (H, u)
        = simulation_update (a_mat param) (b_mat param) (c_mat param) (standardize raw) t (H, u)"
      by (simp only: simulate_bekk_step_eq)
  qed simp
  moreover have "?H ! 0 = unconditional_var param" using nobs by (simp add: empty_buffer_def)
  moreover have "?u ! 0 = replicate ?n 0" using nobs by (simp add: zeros_row)
  ultimately show ?thesis using d g1 by simp
qed

text \<open>
  Claim C5.  In simulation mode, for all parameter matrices and every supplied sequence of
  innovation draws \<open>e(t)\<close>, a simulated path has \<open>u(0) = 0\<close> and, for every \<open>t\<close> from
  \<open>1\<close> to \<open>T - 1\<close>, \<open>H(t) = C C\<^sup>T + A (u(t-1) u(t-1)\<^sup>T) A\<^sup>T + B H(t-1) B\<^sup>T\<close> and
  \<open>u(t) = L e(t)\<close> with \<open>L\<close> the lower Cholesky factor of \<open>H(t)\<close>.  This holds for
  \<open>simulate_BEKK\<close> (where \<open>T = 1000\<close>) and for \<open>simulate_bekk\<close> (where \<open>T = nobs\<close> and
  \<open>e\<close> holds the standardized draws).
\<close>

theorem simulation_path:
  "(simulate_BEKK theta n e = Some (Inr (u, H)) \<longrightarrow>
      (\<exists>A B C. convert_theta_to_abc theta n = Inr (A, B, C)
         \<and> length u = 1000 \<and> length H = 1000 \<and> u ! 0 = replicate n 0
         \<and> (\<forall>t\<in>{1..<1000}.
               H ! t = add (add (dot C (transpose_m C)) (dot (dot A (outer (u ! (t - 1)))) (transpose_m A)))
                           (dot (dot B (H ! (t - 1))) (transpose_m B))
               \<and> (\<exists>L. cholesky_lower (H ! t) = Inr L \<and> u ! t = mat_dot_vec L (e ! t)))))
   \<and> (simulate_bekk smp param nobs distr degf lam g = (Inr (innov, hvar), g') \<longrightarrow>
      (\<exists>raw. draw_errors smp distr degf lam nobs (nrows (a_mat param)) g = Inr (raw, g')
         \<and> length innov = nobs \<and> length hvar = nobs \<and> innov ! 0 = replicate (nrows (a_mat param)) 0
         \<and> (\<forall>t\<in>{1..<nobs}.
               hvar ! t = add (add (dot (c_mat param) (transpose_m (c_mat param)))
                                   (dot (dot (a_mat param) (outer (innov ! (t - 1)))) (transpose_m (a_mat param))))
                              (dot (dot (b_mat param) (hvar ! (t - 1))) (transpose_m (b_mat param)))
               \<and> (\<exists>L. cholesky_lower (hvar ! t) = Inr L
                      \<and> innov ! t = mat_dot_vec L (standardize raw ! t)))))"
proof (intro conjI impI)
  assume "simulate_BEKK theta n e = Some (Inr (u, H))"
  from simulate_BEKK_path [OF this] obtain A B C where
    abc: "convert_theta_to_abc theta n = Inr (A, B, C)"
    and inv: "simulated_upto A B C e (H ! 0) (replicate n 0) 1000 1000 (H, u)" by blast
  from inv have len: "length u = 1000" "length H = 1000" "u ! 0 = replicate n 0"
    and steps: "\<forall>t. 0 < t \<and> t < 1000 \<longrightarrow>
              H ! t = add (add (dot C (transpose_m C)) (dot (dot A (outer (u ! (t - 1)))) (transpose_m A)))
                           (dot (dot B (H ! (t - 1))) (transpose_m B))
              \<and> (\<exists>L. cholesky_lower (H ! t) = Inr L \<and> u ! t = mat_dot_vec L (e ! t))"
    unfolding simulated_upto_def prod.case simulation_next_def by blast+
  have "\<forall>t\<in>{1..<1000}.
               H ! t = add (add (dot C (transpose_m C)) (dot (dot A (outer (u ! (t - 1)))) (transpose_m A)))
                           (dot (dot B (H ! (t - 1))) (transpose_m B))
               \<and> (\<exists>L. cholesky_lower (H ! t) = Inr L \<and> u ! t = mat_dot_vec L (e ! t))"
  proof
    fix t :: nat assume "t \<in> {1..<1000}"
    then have "0 < t \<and> t < 1000" by simp
    with steps show "H ! t = add (add (dot C (transpose_m C)) (dot (dot A (outer (u ! (t - 1)))) (transpose_m A)))
                           (dot (dot B (H ! (t - 1))) (transpose_m B))
               \<and> (\<exists>L. cholesky_lower (H ! t) = Inr L \<and> u ! t = mat_dot_vec L (e ! t))"
      by blast
  qed
  with abc len show
    "\<exists>A B C. convert_theta_to_abc theta n = Inr (A, B, C)
         \<and> length u = 1000 \<and> length H = 1000 \<and> u ! 0 = replicate n 0
         \<and> (\<forall>t\<in>{1..<1000}.
               H ! t = add (add (dot C (transpose_m C)) (dot (dot A (outer (u ! (t - 1)))) (transpose_m A)))
                           (dot (dot B (H ! (t - 1))) (transpose_m B))
               \<and> (\<exists>L. cholesky_lower (H ! t) = Inr L \<and> u ! t = mat_dot_vec L (e ! t)))"
    by blast
next
  let ?A = "a_mat param" and ?B = "b_mat param" and ?C = "c_mat param"
  assume "simulate_bekk smp param nobs distr degf lam g = (Inr (innov, hvar), g')"
  from simulate_bekk_path [OF this] obtain raw where
    d: "draw_errors smp distr degf lam nobs (nrows ?A) g = Inr (raw, g')"
    and inv: "simulated_upto ?A ?B ?C (standardize raw) (unconditional_var param)
                (replicate (nrows ?A) 0) nobs nobs (hvar, innov)" by blast
  from inv have len: "length innov = nobs" "length hvar = nobs" "innov ! 0 = replicate (nrows ?A) 0"
    and steps: "\<forall>t. 0 < t \<and> t < nobs \<longrightarrow>
              hvar ! t = add (add (dot ?C (transpose_m ?C))
                                   (dot (dot ?A (outer (innov ! (t - 1)))) (transpose_m ?A)))
                              (dot (dot ?B (hvar ! (t - 1))) (transpose_m ?B))
              \<and> (\<exists>L. cholesky_lower (hvar ! t) = Inr L
                     \<and> innov ! t = mat_dot_vec L (standardize raw ! t))"
    unfolding simulated_upto_def prod.case simulation_next_def by blast+
  have "\<forall>t\<in>{1..<nobs}.
               hvar ! t = add (add (dot ?C (transpose_m ?C))
                                   (dot (dot ?A (outer (innov ! (t - 1)))) (transpose_m ?A)))
                              (dot (dot ?B (hvar ! (t - 1))) (transpose_m ?B))
               \<and> (\<exists>L. cholesky_lower (hvar ! t) = Inr L
                      \<and> innov ! t = mat_dot_vec L (standardize raw ! t))"
  proof
    fix t :: nat assume "t \<in> {1..<nobs}"
    then have "0 < t \<and> t < nobs" by simp
    with steps show "hvar ! t = add (add (dot ?C (transpose_m ?C))
                                   (dot (dot ?A (outer (innov ! (t - 1)))) (transpose_m ?A)))
                              (dot (dot ?B (hvar ! (t - 1))) (transpose_m ?B))
               \<and> (\<exists>L. cholesky_lower (hvar ! t) = Inr L
                      \<and> innov ! t = mat_dot_vec L (standardize raw ! t))"
      by blast
  qed
  with d len show
    "\<exists>raw. draw_errors smp distr degf lam nobs (nrows ?A) g = Inr (raw, g')
         \<and> length innov = nobs \<and> length hvar = nobs \<and> innov ! 0 = replicate (nrows ?A) 0
         \<and> (\<forall>t\<in>{1..<nobs}.
               hvar ! t = add (add (dot ?C (transpose_m ?C))
                                   (dot (dot ?A (outer (innov ! (t - 1)))) (transpose_m ?A)))
                              (dot (dot ?B (hvar ! (t - 1))) (transpose_m ?B))
               \<and> (\<exists>L. cholesky_lower (hvar ! t) = Inr L
                      \<and> innov ! t = mat_dot_vec L (standardize raw ! t)))"
    by blast
qed

text \<open>A run of \<open>simulate_BEKK\<close>: \<open>A = B = 0\<close> and \<open>C = 1\<close> in dimension one.\<close>

lemma foldM_invariant:
  assumes "I s" and "\<And>t s. t \<in> set ts \<Longrightarrow> I s \<Longrightarrow> \<exists>s'. f t s = Inr s' \<and> I s'"
  shows "\<exists>s'. foldM f ts s = Inr s' \<and> I s'"
  using assms
proof (induction ts arbitrary: s)
  case Nil
  then show ?case by simp
next
  case (Cons t ts)
  from Cons.prems(2) [of t s] Cons.prems(1) obtain s1 where s1: "f t s = Inr s1" "I s1" by auto
  from Cons.IH [OF s1(2)] Cons.prems(2) obtain s' where "foldM f ts s1 = Inr s'" "I s'"
    by (metis list.set_intros(2))
  with s1 show ?case by simp
qed

lemma sum_list_zero: "(\<Sum>k\<leftarrow>xs. (0::real)) = 0"
  by (induction xs) simp_all

lemma one_by_one_sandwich: "dot (dot [[0]] X) (transpose_m [[0]]) = [[0]]"
proof -
  have 1: "dot [[0]] X = mat 1 (ncols X) (\<lambda>i j. 0)"
    by (simp add: dot_def nrows_def ncols_def mat_def)
  have 2: "transpose_m [[0]] = [[0]]"
    by (simp add: transpose_m_def nrows_def ncols_def mat_def)
  have "dot (mat 1 c (\<lambda>i j. 0)) [[0]] = mat 1 1 (\<lambda>i j. 0)" for c
    unfolding dot_def by (simp add: ncols_mat sum_list_upt, simp add: ncols_def, rule mat_cong, simp)
  then show ?thesis by (simp add: 1 2 mat_def)
qed

lemma one_by_one_next: "simulation_next [[0]] [[0]] [[1]] H u t = [[1]]"
proof -
  have "dot [[1]] (transpose_m [[1]]) = [[1]]"
    by (simp add: dot_def transpose_m_def nrows_def ncols_def mat_def)
  then show ?thesis
    by (simp add: simulation_next_def one_by_one_sandwich add_def nrows_def ncols_def mat_def)
qed

lemma one_by_one_stationary_next: "stationary_next [[0]] [[0]] [[1]] X = [[1]]"
proof -
  have "dot [[1]] (transpose_m [[1]]) = [[1]]"
    by (simp add: dot_def transpose_m_def nrows_def ncols_def mat_def)
  then show ?thesis
    by (simp add: stationary_next_def one_by_one_sandwich add_def nrows_def ncols_def mat_def)
qed

lemma one_by_one_cholesky: "cholesky_lower [[1]] = Inr [[1]]"
  by (simp add: cholesky_lower_def chol_entry_def tril_indices_def nrows_def zeros_def mat_def
      put_def Let_def)

lemma one_by_one_iterates: "(stationary_next [[0]] [[0]] [[1]] ^^ k) [[1]] = [[1]]"
  by (induction k) (simp_all add: one_by_one_stationary_next)

lemma one_by_one_stationary_H: "stationary_H [[0]] [[0]] [[1]] = Some [[1]]"
proof -
  let ?A = "[[0::real]]" and ?C = "[[1::real]]"
  have e: "eye (nrows ?A) = [[1]]"
    by (simp add: eye_def nrows_def mat_def)
  have n: "norm_after ?A ?A ?C nrm [[1]] (Suc k) = 0" for nrm k
    by (simp add: norm_after_def one_by_one_iterates one_by_one_stationary_next
        norm_fro_def sub_def nrows_def ncols_def mat_def)
  have "\<not> goes_on (0 + 1000) (norm_after ?A ?A ?C (10 ^ 3) [[1]] 1000)"
    using n [of "10 ^ 3" 999] by (simp add: goes_on_def)
  from stationary_loop_terminates [OF this] obtain r where
    r: "stationary_loop ?A ?A ?C 0 (10 ^ 3) [[1]] = Some r" by blast
  from stationary_loop_returns [OF r] obtain k where
    "r = (0 + k, norm_after ?A ?A ?C (10 ^ 3) [[1]] k, (stationary_next ?A ?A ?C ^^ k) [[1]])"
    by blast
  then have "r = (k, norm_after ?A ?A ?C (10 ^ 3) [[1]] k, [[1]])"
    by (simp add: one_by_one_iterates)
  with r show ?thesis
    by (simp add: stationary_H_def e)
qed

lemma one_by_one_decode: "convert_theta_to_abc [0, 0, 1] 1 = Inr ([[0]], [[0]], [[1]])"
  by (simp add: convert_theta_to_abc_def reshape_def slice_def setitem_def tril_indices_def
      zeros_def mat_def put_def)

lemma one_by_one_run: "\<exists>u H. simulate_BEKK [0, 0, 1] 1 e = Some (Inr (u, H))"
proof -
  let ?A = "[[0::real]]" and ?C = "[[1::real]]"
  let ?I = "\<lambda>s :: mat list \<times> mat. length (fst s) = 1000"
  let ?s = "((empty_buffer 1000 1)[0 := [[1]]], zeros 1000 1)"
  have "\<exists>s'. foldM (simulate_step ?A ?A ?C e) [1..<1000] ?s = Inr s' \<and> ?I s'"
  proof (rule foldM_invariant [where I = ?I])
    show "?I ?s" by (simp add: empty_buffer_def)
  next
    fix t and s :: "mat list \<times> mat"
    assume t: "t \<in> set [1..<1000]" and I: "?I s"
    obtain H u where s: "s = (H, u)" by (cases s)
    have "simulate_step ?A ?A ?C e t (H, u) = simulation_update ?A ?A ?C e t (H, u)"
      using t I s by (intro simulate_step_eq) simp_all
    then show "\<exists>s'. simulate_step ?A ?A ?C e t s = Inr s' \<and> ?I s'"
      using I s by (simp add: simulation_update_def one_by_one_next one_by_one_cholesky)
  qed
  then obtain H u where "foldM (simulate_step ?A ?A ?C e) [1..<1000] ?s = Inr (H, u)"
    by auto
  then show ?thesis
    by (simp add: simulate_BEKK_def one_by_one_decode [unfolded One_nat_def]
        one_by_one_stationary_H)
qed

lemma counting_run:
  "simulate_bekk counting_samplers
     \<lparr>a_mat = [[0]], b_mat = [[0]], c_mat = [[1]], unconditional_var = [[1]]\<rparr>
     2 ''normal'' 10 0 0 = (Inr ([[0], [1]], [[[1]], [[1]]]), 1)"
proof -
  have s: "sqrt (1 / 4) = 1 / 2"
    by (simp add: real_sqrt_divide)
  have m: "mean0 [[0], [1]] = [1 / 2]"
    by (simp add: mean0_def column_def nrows_def ncols_def)
  have sd: "std0 [[0], [1]] = [1 / 2]"
    by (simp add: std0_def m column_def nrows_def ncols_def power2_eq_square s)
  have st: "standardize [[0], [1]] = [[-1], [1]]"
    by (simp add: standardize_def m sd nrows_def ncols_def mat_def numeral_2_eq_2)
  have d: "draw_errors counting_samplers ''normal'' 10 0 2 1 (0::nat) = Inr ([[0], [1]], 1)"
    by (simp add: draw_errors_def counting_samplers_def mat_def numeral_2_eq_2)
  have c: "dot [[1]] (transpose_m [[1]]) = [[1]]"
    by (simp add: dot_def transpose_m_def nrows_def ncols_def mat_def)
  have step: "simulate_bekk_step \<lparr>a_mat = [[0]], b_mat = [[0]], c_mat = [[1]], unconditional_var = [[1]]\<rparr>
        [[1]] [[-1], [1]] 1 ([[[1]], [[0]]], [[0], [0]]) = Inr ([[[1]], [[1]]], [[0], [1]])"
    by (simp add: simulate_bekk_step_def one_by_one_sandwich add_def nrows_def ncols_def mat_def
        one_by_one_cholesky mat_dot_vec_def)
  have e0: "(empty_buffer 2 1)[0 := [[1]]] = [[[1]], [[0]]]" and z0: "zeros 2 1 = [[0], [0]]"
    by (simp_all add: empty_buffer_def zeros_def mat_def numeral_2_eq_2)
  have upt: "[1..<2] = [1::nat]"
    by (simp add: numeral_2_eq_2)
  have n: "nrows [[0::real]] = 1"
    by (simp add: nrows_def)
  show ?thesis
    unfolding simulate_bekk_def Let_def
    by (simp only: bekk_params.simps n d sum.case prod.case st c e0 z0 upt foldM.simps step)
      simp
qed

theorem simulation_path_witness:
  "(\<exists>u H. simulate_BEKK [0, 0, 1] 1 (replicate 1000 [2]) = Some (Inr (u, H))
       \<and> length u = 1000 \<and> u ! 0 = [0] \<and> H ! 1 = [[1]] \<and> u ! 1 = [2])
   \<and> (\<exists>innov hvar g'. simulate_bekk counting_samplers
           \<lparr>a_mat = [[0]], b_mat = [[0]], c_mat = [[1]], unconditional_var = [[1]]\<rparr>
           2 ''normal'' 10 0 (0::nat) = (Inr (innov, hvar), g')
       \<and> length innov = 2 \<and> innov ! 0 = [0] \<and> hvar ! 1 = [[1]] \<and> innov ! 1 = [1])"
proof
  let ?e = "replicate 1000 [2::real]"
  from one_by_one_run obtain u H where run: "simulate_BEKK [0, 0, 1] 1 ?e = Some (Inr (u, H))"
    by blast
  from simulation_path [THEN conjunct1, THEN mp, OF run] one_by_one_decode
  have len: "length u = 1000" and u0: "u ! 0 = replicate 1 0"
    and st: "\<forall>t\<in>{1..<1000}. H ! t = simulation_next [[0]] [[0]] [[1]] H u t
               \<and> (\<exists>L. cholesky_lower (H ! t) = Inr L \<and> u ! t = mat_dot_vec L (?e ! t))"
    unfolding simulation_next_def by auto
  from st have h1: "H ! 1 = [[1]]"
    by (simp add: one_by_one_next)
  from st obtain L where L: "cholesky_lower (H ! 1) = Inr L" and uL: "u ! 1 = mat_dot_vec L (?e ! 1)"
    by force
  from L have "L = [[1]]"
    unfolding h1 one_by_one_cholesky by simp
  with uL have u1: "u ! 1 = [2]"
    by (simp add: mat_dot_vec_def nrows_def)
  from run len u0 h1 u1
  show "\<exists>u H. simulate_BEKK [0, 0, 1] 1 ?e = Some (Inr (u, H))
       \<and> length u = 1000 \<and> u ! 0 = [0] \<and> H ! 1 = [[1]] \<and> u ! 1 = [2]"
    by auto
next
  let ?p = "\<lparr>a_mat = [[0]], b_mat = [[0]], c_mat = [[1]], unconditional_var = [[1]]\<rparr>"
  from simulation_path [THEN conjunct2, THEN mp, OF counting_run]
  have "length [[0::real], [1]] = 2" and "[[0::real], [1]] ! 0 = replicate (nrows (a_mat ?p)) 0"
    by auto
  with counting_run
  show "\<exists>innov hvar g'. simulate_bekk counting_samplers ?p 2 ''normal'' 10 0 (0::nat) = (Inr (innov, hvar), g')
       \<and> length innov = 2 \<and> innov ! 0 = [0] \<and> hvar ! 1 = [[1]] \<and> innov ! 1 = [1]"
    by (simp add: nrows_def)
qed

end
